theory Spec2Isabelle
  imports Main "HOL-Library.Sublist"
begin

section \<open>Python values and exceptions\<close>

text \<open>
  The recommender is Python glue code around three external services: a chat LLM reached
  over HTTP, a vector-search index, and a web framework. Python strings are modelled as
  \<^typ>\<open>string\<close> holding the UTF-8 bytes of the text; every operation the code applies to a
  string (concatenation, \<^verbatim>\<open>join\<close>, searching for the ASCII character \<^verbatim>\<open>}\<close>, slicing at
  its position) gives the same text on bytes as on code points.

  The values that travel through the code are the results of \<^verbatim>\<open>json.loads\<close>: \<^verbatim>\<open>None\<close>,
  booleans, integers, floats, strings, lists and dictionaries with string keys. A float is
  kept as the lexeme it was read from (its binary value is not computed). A dictionary is
  an association list in insertion order with distinct keys.
\<close>

datatype json =
    JNull
  | JBool bool
  | JInt int
  | JFloat string
  | JString string
  | JArray "json list"
  | JObject "(string \<times> json) list"

text \<open>
  Every exception the code can raise is a value of \<open>py_error\<close>; a computation that may
  raise returns \<open>py_error + 'a\<close>, with \<open>Inl\<close> for the exception. \<open>KeyError\<close> carries the
  missing key, \<open>Exception\<close> the message of an explicit \<^verbatim>\<open>raise Exception(...)\<close>, and
  \<open>ExternalError\<close> stands for whatever an external service call raises.
\<close>

datatype py_error =
    IndexError
  | TypeError
  | ValueError
  | KeyError json
  | AttributeError
  | JSONDecodeError
  | Exception string
  | ExternalError string

text \<open>\<^verbatim>\<open>sep.join(xs)\<close> on a list of strings.\<close>

fun join :: "string \<Rightarrow> string list \<Rightarrow> string" where
  "join sep [] = []"
| "join sep [x] = x"
| "join sep (x # y # ys) = x @ sep @ join sep (y # ys)"

text \<open>\<^verbatim>\<open>xs[i]\<close> on a sequence: a negative index counts from the end, and an index out of
  range raises IndexError.\<close>

definition py_index :: "'a list \<Rightarrow> int \<Rightarrow> py_error + 'a" where
  "py_index xs i =
     (if 0 \<le> i \<and> i < int (length xs) then Inr (xs ! nat i)
      else if i < 0 \<and> - i \<le> int (length xs) then Inr (xs ! nat (int (length xs) + i))
      else Inl IndexError)"

text \<open>The characters (code points) of a string: each lead byte with the continuation
  bytes that follow it.\<close>

definition is_continuation :: "char \<Rightarrow> bool" where
  "is_continuation c = (0x80 \<le> (of_char c :: nat) \<and> (of_char c :: nat) < 0xC0)"

function utf8_chars :: "string \<Rightarrow> string list" where
  "utf8_chars [] = []"
| "utf8_chars (c # cs) =
     (c # takeWhile is_continuation cs) # utf8_chars (dropWhile is_continuation cs)"
  by pat_completeness auto
termination
  by (relation "measure length") (auto simp: length_dropWhile_le less_Suc_eq_le)

text \<open>
  Subscription \<^verbatim>\<open>v[k]\<close> with a string key and \<^verbatim>\<open>v[i]\<close> with an integer index, on a
  value of any of the types above. A dictionary raises KeyError for a key it does not
  hold (its keys are strings, so never an integer); a list or a string subscripted with a
  string, and a number, boolean or \<^verbatim>\<open>None\<close> subscripted with anything, raise TypeError.
\<close>

fun py_getitem_str :: "json \<Rightarrow> string \<Rightarrow> py_error + json" where
  "py_getitem_str (JObject kvs) k =
     (case map_of kvs k of None \<Rightarrow> Inl (KeyError (JString k)) | Some v \<Rightarrow> Inr v)"
| "py_getitem_str v k = Inl TypeError"

fun py_getitem_int :: "json \<Rightarrow> int \<Rightarrow> py_error + json" where
  "py_getitem_int (JArray xs) i = py_index xs i"
| "py_getitem_int (JString s) i =
     (case py_index (utf8_chars s) i of Inl e \<Rightarrow> Inl e | Inr ch \<Rightarrow> Inr (JString ch))"
| "py_getitem_int (JObject kvs) i = Inl (KeyError (JInt i))"
| "py_getitem_int v i = Inl TypeError"

text \<open>Iteration \<^verbatim>\<open>for item in v\<close>: the elements of a list, the characters of a string,
  the keys of a dictionary; anything else is not iterable.\<close>

fun py_iter :: "json \<Rightarrow> py_error + json list" where
  "py_iter (JArray xs) = Inr xs"
| "py_iter (JString s) = Inr (map JString (utf8_chars s))"
| "py_iter (JObject kvs) = Inr (map (\<lambda>kv. JString (fst kv)) kvs)"
| "py_iter v = Inl TypeError"

text \<open>
  \<^verbatim>\<open>str(v)\<close> and \<^verbatim>\<open>repr(v)\<close>. \<^verbatim>\<open>str\<close> of a string is the string itself; inside a list
  or dictionary a string is shown by \<^verbatim>\<open>repr\<close>: in single quotes, or in double quotes when
  it contains a single quote and no double quote, with backslash, the quote and control
  characters escaped. Bytes from 0x80 on are copied (printable non-ASCII characters are
  shown as they are), and a float is shown by its lexeme.
\<close>

definition digit_char :: "nat \<Rightarrow> char" where
  "digit_char d = ''0123456789abcdef'' ! d"

fun decimal_digits :: "nat \<Rightarrow> string" where
  "decimal_digits n =
     (if 10 \<le> n then decimal_digits (n div 10) else []) @ [digit_char (n mod 10)]"

definition str_of_int :: "int \<Rightarrow> string" where
  "str_of_int i =
     (if 0 \<le> i then decimal_digits (nat i) else CHR ''-'' # decimal_digits (nat (- i)))"

definition repr_char :: "char \<Rightarrow> char \<Rightarrow> string" where
  "repr_char q c =
     (if c = q \<or> c = CHR 0x5C then [CHR 0x5C, c]
      else if c = CHR 0x09 then [CHR 0x5C, CHR ''t'']
      else if c = CHR 0x0A then [CHR 0x5C, CHR ''n'']
      else if c = CHR 0x0D then [CHR 0x5C, CHR ''r'']
      else if (of_char c :: nat) < 0x20 \<or> c = CHR 0x7F then
        [CHR 0x5C, CHR ''x'', digit_char (of_char c div 16), digit_char (of_char c mod 16)]
      else [c])"

definition repr_str :: "string \<Rightarrow> string" where
  "repr_str s =
     (let q = (if CHR 0x27 \<in> set s \<and> CHR 0x22 \<notin> set s then CHR 0x22 else CHR 0x27)
      in [q] @ concat (map (repr_char q) s) @ [q])"

fun py_repr :: "json \<Rightarrow> string" where
  "py_repr JNull = ''None''"
| "py_repr (JBool b) = (if b then ''True'' else ''False'')"
| "py_repr (JInt i) = str_of_int i"
| "py_repr (JFloat lexeme) = lexeme"
| "py_repr (JString s) = repr_str s"
| "py_repr (JArray xs) = ''['' @ join '', '' (map py_repr xs) @ '']''"
| "py_repr (JObject kvs) =
     ''{'' @ join '', '' (map (\<lambda>kv. repr_str (fst kv) @ '': '' @ py_repr (snd kv)) kvs) @ ''}''"

definition py_str :: "json \<Rightarrow> string" where
  "py_str v = (case v of JString s \<Rightarrow> s | _ \<Rightarrow> py_repr v)"

text \<open>
  \<^verbatim>\<open>s.rindex(c)\<close> for a single character \<open>c\<close>: the highest position of \<open>c\<close> in \<open>s\<close>, and
  ValueError when \<open>c\<close> does not occur. The scan keeps the last position seen.
\<close>

fun rindex_from :: "char \<Rightarrow> string \<Rightarrow> nat \<Rightarrow> nat option \<Rightarrow> nat option" where
  "rindex_from c [] i found = found"
| "rindex_from c (x # xs) i found = rindex_from c xs (Suc i) (if x = c then Some i else found)"

definition rindex :: "string \<Rightarrow> char \<Rightarrow> py_error + nat" where
  "rindex s c = (case rindex_from c s 0 None of None \<Rightarrow> Inl ValueError | Some i \<Rightarrow> Inr i)"

section \<open>\<open>json.loads\<close>\<close>

text \<open>
  The decoder of Python's standard library, as the code uses it (default options, a string
  argument): leading and trailing whitespace is skipped, exactly one value is read, and
  anything else raises JSONDecodeError. The position and message of the error are not kept.
\<close>

definition is_ws :: "char \<Rightarrow> bool" where
  "is_ws c = (c = CHR '' '' \<or> c = CHR 0x09 \<or> c = CHR 0x0A \<or> c = CHR 0x0D)"

definition skip_ws :: "string \<Rightarrow> string" where
  "skip_ws s = dropWhile is_ws s"

text \<open>
  String literals (\<^verbatim>\<open>scanstring\<close>, strict mode). The input starts just after the opening
  quote; the result is the decoded content and the text after the closing quote. A raw
  control character, an unknown escape, a malformed four-digit hexadecimal escape and a
  missing closing quote are errors. A hexadecimal escape denotes a code point, stored as
  its UTF-8 bytes; a high surrogate directly followed by an escaped low surrogate denotes
  one code point.
\<close>

definition hex_val :: "char \<Rightarrow> nat option" where
  "hex_val c =
     (let n = (of_char c :: nat) in
      if 48 \<le> n \<and> n \<le> 57 then Some (n - 48)
      else if 65 \<le> n \<and> n \<le> 70 then Some (n - 55)
      else if 97 \<le> n \<and> n \<le> 102 then Some (n - 87)
      else None)"

definition decode_uXXXX :: "char \<Rightarrow> char \<Rightarrow> char \<Rightarrow> char \<Rightarrow> nat option" where
  "decode_uXXXX a b c d =
     (case (hex_val a, hex_val b, hex_val c, hex_val d) of
        (Some w, Some x, Some y, Some z) \<Rightarrow> Some (((w * 16 + x) * 16 + y) * 16 + z)
      | _ \<Rightarrow> None)"

definition utf8_encode :: "nat \<Rightarrow> string" where
  "utf8_encode cp =
     (if cp < 0x80 then [char_of cp]
      else if cp < 0x800 then [char_of (0xC0 + cp div 64), char_of (0x80 + cp mod 64)]
      else if cp < 0x10000 then
        [char_of (0xE0 + cp div 4096), char_of (0x80 + cp div 64 mod 64), char_of (0x80 + cp mod 64)]
      else
        [char_of (0xF0 + cp div 262144), char_of (0x80 + cp div 4096 mod 64),
         char_of (0x80 + cp div 64 mod 64), char_of (0x80 + cp mod 64)])"

definition backslash :: "char \<Rightarrow> char option" where
  "backslash e =
     (if e = CHR 0x22 then Some (CHR 0x22)
      else if e = CHR 0x5C then Some (CHR 0x5C)
      else if e = CHR ''/'' then Some (CHR ''/'')
      else if e = CHR ''b'' then Some (CHR 0x08)
      else if e = CHR ''f'' then Some (CHR 0x0C)
      else if e = CHR ''n'' then Some (CHR 0x0A)
      else if e = CHR ''r'' then Some (CHR 0x0D)
      else if e = CHR ''t'' then Some (CHR 0x09)
      else None)"

fun scanstring :: "string \<Rightarrow> string \<Rightarrow> (string \<times> string) option" where
  "scanstring [] acc = None"
| "scanstring (c # cs) acc =
     (if c = CHR 0x22 then Some (acc, cs)
      else if c = CHR 0x5C then
        (case cs of
           [] \<Rightarrow> None
         | e # es \<Rightarrow>
             if e = CHR ''u'' then
               (case es of
                  h1 # h2 # h3 # h4 # rest \<Rightarrow>
                    (case decode_uXXXX h1 h2 h3 h4 of
                       None \<Rightarrow> None
                     | Some uni \<Rightarrow>
                         (case rest of
                            b # u # g1 # g2 # g3 # g4 # rest2 \<Rightarrow>
                              if 0xD800 \<le> uni \<and> uni \<le> 0xDBFF \<and> b = CHR 0x5C \<and> u = CHR ''u'' then
                                (case decode_uXXXX g1 g2 g3 g4 of
                                   None \<Rightarrow> None
                                 | Some uni2 \<Rightarrow>
                                     if 0xDC00 \<le> uni2 \<and> uni2 \<le> 0xDFFF then
                                       scanstring rest2
                                         (acc @ utf8_encode
                                            (0x10000 + (uni - 0xD800) * 1024 + (uni2 - 0xDC00)))
                                     else scanstring rest (acc @ utf8_encode uni))
                              else scanstring rest (acc @ utf8_encode uni)
                          | _ \<Rightarrow> scanstring rest (acc @ utf8_encode uni)))
                | _ \<Rightarrow> None)
             else
               (case backslash e of
                  None \<Rightarrow> None
                | Some ch \<Rightarrow> scanstring es (acc @ [ch])))
      else if (of_char c :: nat) < 0x20 then None
      else scanstring cs (acc @ [c]))"

text \<open>
  Numbers: an optional minus sign, an integer part without leading zeros, an optional
  fraction and an optional exponent (each taken only when complete). Without fraction and
  exponent the value is an integer, otherwise a float.
\<close>

definition is_digit :: "char \<Rightarrow> bool" where
  "is_digit c = (48 \<le> (of_char c :: nat) \<and> (of_char c :: nat) \<le> 57)"

definition digit_val :: "char \<Rightarrow> nat" where
  "digit_val c = of_char c - 48"

definition nat_of_digits :: "string \<Rightarrow> nat" where
  "nat_of_digits ds = foldl (\<lambda>a c. 10 * a + digit_val c) 0 ds"

definition scan_number :: "string \<Rightarrow> (json \<times> string) option" where
  "scan_number s =
     (let (sign, s1) = (case s of c # t \<Rightarrow> if c = CHR ''-'' then (''-'', t) else ([], s) | [] \<Rightarrow> ([], s)) in
      case s1 of
        [] \<Rightarrow> None
      | c # t \<Rightarrow>
          if \<not> is_digit c then None
          else
            let (ipart, r1) = (if c = CHR ''0'' then ([c], t)
                               else (c # takeWhile is_digit t, dropWhile is_digit t));
                (frac, r2) = (case r1 of
                                d # f # u \<Rightarrow>
                                  if d = CHR ''.'' \<and> is_digit f
                                  then (d # takeWhile is_digit (f # u), dropWhile is_digit (f # u))
                                  else ([], r1)
                              | _ \<Rightarrow> ([], r1));
                (ex, r3) = (case r2 of
                              e # u \<Rightarrow>
                                if e = CHR ''e'' \<or> e = CHR ''E'' then
                                  (let (sg, v) = (case u of
                                                    g # w \<Rightarrow> if g = CHR ''+'' \<or> g = CHR ''-''
                                                             then ([g], w) else ([], u)
                                                  | [] \<Rightarrow> ([], u))
                                   in if takeWhile is_digit v = [] then ([], r2)
                                      else (e # sg @ takeWhile is_digit v, dropWhile is_digit v))
                                else ([], r2)
                            | [] \<Rightarrow> ([], r2))
            in if frac = [] \<and> ex = []
               then Some (JInt (if sign = [] then int (nat_of_digits ipart)
                                else - int (nat_of_digits ipart)), r3)
               else Some (JFloat (sign @ ipart @ frac @ ex), r3))"

text \<open>Storing a key in a dictionary: a key already present keeps its place and takes the
  new value, a new key goes to the end.\<close>

fun dict_set :: "(string \<times> json) list \<Rightarrow> string \<Rightarrow> json \<Rightarrow> (string \<times> json) list" where
  "dict_set [] k v = [(k, v)]"
| "dict_set ((k', v') # kvs) k v =
     (if k' = k then (k, v) # kvs else (k', v') # dict_set kvs k v)"

text \<open>
  Values, arrays and objects (\<^verbatim>\<open>scan_once\<close>, \<^verbatim>\<open>JSONArray\<close>, \<^verbatim>\<open>JSONObject\<close>).
  \<open>scan_array\<close> starts at the first character of an element, \<open>scan_object\<close> just after
  the opening quote of a key. The first argument bounds the number of nested calls;
  \<open>json_loads\<close> supplies twice the length of the text plus two, and every call is made
  after at least one more character has been consumed. (The interpreter's own recursion
  limit is not modelled.)
\<close>

fun scan_once :: "nat \<Rightarrow> string \<Rightarrow> (json \<times> string) option"
  and scan_array :: "nat \<Rightarrow> string \<Rightarrow> json list \<Rightarrow> (json list \<times> string) option"
  and scan_object :: "nat \<Rightarrow> string \<Rightarrow> (string \<times> json) list \<Rightarrow> ((string \<times> json) list \<times> string) option"
where
  "scan_once 0 s = None"
| "scan_once (Suc n) s =
     (case s of
        [] \<Rightarrow> None
      | c # cs \<Rightarrow>
          if c = CHR 0x22 then
            (case scanstring cs [] of None \<Rightarrow> None | Some (str, r) \<Rightarrow> Some (JString str, r))
          else if c = CHR ''{'' then
            (case skip_ws cs of
               [] \<Rightarrow> None
             | d # r \<Rightarrow>
                 if d = CHR ''}'' then Some (JObject [], r)
                 else if d = CHR 0x22 then
                   (case scan_object n r [] of None \<Rightarrow> None | Some (kvs, r') \<Rightarrow> Some (JObject kvs, r'))
                 else None)
          else if c = CHR ''['' then
            (case skip_ws cs of
               [] \<Rightarrow> None
             | d # r \<Rightarrow>
                 if d = CHR '']'' then Some (JArray [], r)
                 else (case scan_array n (d # r) [] of
                         None \<Rightarrow> None
                       | Some (vs, r') \<Rightarrow> Some (JArray vs, r')))
          else if prefix ''null'' s then Some (JNull, drop 4 s)
          else if prefix ''true'' s then Some (JBool True, drop 4 s)
          else if prefix ''false'' s then Some (JBool False, drop 5 s)
          else
            (case scan_number s of
               Some res \<Rightarrow> Some res
             | None \<Rightarrow>
                 if prefix ''NaN'' s then Some (JFloat ''NaN'', drop 3 s)
                 else if prefix ''Infinity'' s then Some (JFloat ''Infinity'', drop 8 s)
                 else if prefix ''-Infinity'' s then Some (JFloat ''-Infinity'', drop 9 s)
                 else None))"
| "scan_array 0 s acc = None"
| "scan_array (Suc n) s acc =
     (case scan_once n s of
        None \<Rightarrow> None
      | Some (v, r) \<Rightarrow>
          (case skip_ws r of
             [] \<Rightarrow> None
           | d # r' \<Rightarrow>
               if d = CHR '']'' then Some (acc @ [v], r')
               else if d = CHR '','' then scan_array n (skip_ws r') (acc @ [v])
               else None))"
| "scan_object 0 s acc = None"
| "scan_object (Suc n) s acc =
     (case scanstring s [] of
        None \<Rightarrow> None
      | Some (key, r) \<Rightarrow>
          (case skip_ws r of
             [] \<Rightarrow> None
           | colon # r1 \<Rightarrow>
               if colon \<noteq> CHR '':'' then None
               else
                 (case scan_once n (skip_ws r1) of
                    None \<Rightarrow> None
                  | Some (v, r2) \<Rightarrow>
                      (case skip_ws r2 of
                         [] \<Rightarrow> None
                       | d # r3 \<Rightarrow>
                           if d = CHR ''}'' then Some (dict_set acc key v, r3)
                           else if d = CHR '','' then
                             (case skip_ws r3 of
                                [] \<Rightarrow> None
                              | q # r4 \<Rightarrow>
                                  if q = CHR 0x22 then scan_object n r4 (dict_set acc key v)
                                  else None)
                           else None))))"

definition json_loads :: "string \<Rightarrow> py_error + json" where
  "json_loads s =
     (case scan_once (2 * length s + 2) (skip_ws s) of
        None \<Rightarrow> Inl JSONDecodeError
      | Some (v, r) \<Rightarrow> if skip_ws r = [] then Inr v else Inl JSONDecodeError)"

section \<open>The prompt builders\<close>

text \<open>
  The accented letters of the Portuguese prompts, as the UTF-8 bytes of the source file.
\<close>

definition e_circ :: string where "e_circ = [CHR 0xC3, CHR 0xAA]"
definition e_acute :: string where "e_acute = [CHR 0xC3, CHR 0xA9]"
definition c_cedil :: string where "c_cedil = [CHR 0xC3, CHR 0xA7]"
definition a_tilde :: string where "a_tilde = [CHR 0xC3, CHR 0xA3]"
definition o_circ :: string where "o_circ = [CHR 0xC3, CHR 0xB4]"
definition i_acute :: string where "i_acute = [CHR 0xC3, CHR 0xAD]"
definition a_acute :: string where "a_acute = [CHR 0xC3, CHR 0xA1]"
definition o_acute :: string where "o_acute = [CHR 0xC3, CHR 0xB3]"

text \<open>
  \<^verbatim>\<open>_get_prompt\<close> of the notebook (03_Assemble_Recommender.py, lines 57-72).
  \<^verbatim>\<open>items[:-1]\<close> is \<^const>\<open>butlast\<close>, \<^verbatim>\<open>items[-1]\<close> is \<^const>\<open>last\<close> (only reached
  with two or more items), and \<^verbatim>\<open>items[0]\<close> on the empty list raises IndexError.
\<close>

definition system_prompt :: string where
  "system_prompt =
     ''Voc'' @ e_circ @ '' '' @ e_acute @ '' um assistente de IA que funciona como um sistema de recomenda''
       @ c_cedil @ a_tilde @ ''o para um site de com'' @ e_acute @ ''rcio eletr'' @ o_circ @ ''nico.''
       @ '' Seja espec'' @ i_acute @ ''fico e limite suas respostas ao formato solicitado.''"

definition json_instruction :: string where
  "json_instruction =
     ''Expresse sua resposta como um objeto JSON com uma chave 'next_items' e um valor representando sua matriz de itens recomendados.''"

definition items_delimited :: "string list \<Rightarrow> py_error + string" where
  "items_delimited items =
     (if length items > 1 then Inr (join '', '' (butlast items) @ '', and '' @ last items)
      else (case items of [] \<Rightarrow> Inl IndexError | x # _ \<Rightarrow> Inr x))"

definition user_prompt :: "string \<Rightarrow> string" where
  "user_prompt delimited =
     ''Um usu'' @ a_acute @ ''rio comprou '' @ delimited
       @ '' nessa ordem. Quais seriam os cinco itens que ele/ela provavelmente compraria em seguida?''
       @ json_instruction"

definition assemble_prompt :: "string \<Rightarrow> string \<Rightarrow> string" where
  "assemble_prompt sys usr =
     ''[INST] <<SYS>>\<newline>'' @ sys @ ''\<newline><</SYS>>\<newline>'' @ usr @ ''[/INST]''"

definition get_prompt :: "string list \<Rightarrow> py_error + string" where
  "get_prompt items =
     (case items_delimited items of
        Inl e \<Rightarrow> Inl e
      | Inr d \<Rightarrow> Inr (assemble_prompt system_prompt (user_prompt d)))"

text \<open>
  \<^verbatim>\<open>_get_prompt\<close> of app.py (the same file, lines 211-226): the same construction with
  English text.
\<close>

definition system_prompt_app :: string where
  "system_prompt_app =
     ''You are an AI assistant functioning as a recommendation system for an ecommerce website.''
       @ '' Be specific and limit your answers to the requested format.''"

definition json_instruction_app :: string where
  "json_instruction_app =
     ''Express your response as a JSON object with a key of 'next_items' and a value representing your array of recommended items.''"

definition user_prompt_app :: "string \<Rightarrow> string" where
  "user_prompt_app delimited =
     ''A user bought '' @ delimited
       @ '' in that order. What five items would he/she be likely to purchase next?''
       @ json_instruction_app"

definition get_prompt_app :: "string list \<Rightarrow> py_error + string" where
  "get_prompt_app items =
     (case items_delimited items of
        Inl e \<Rightarrow> Inl e
      | Inr d \<Rightarrow> Inr (assemble_prompt system_prompt_app (user_prompt_app d)))"

text \<open>
  \<^verbatim>\<open>get_user_prompt\<close> (02_Create_General_Recommendations.py, lines 71-81). The prompt
  starts as \<^verbatim>\<open>None\<close> and is only assigned for a non-empty list, so on the empty list the
  following \<^verbatim>\<open>prompt += "..."\<close> adds a string to \<^verbatim>\<open>None\<close> and raises TypeError.
\<close>

definition get_user_prompt :: "string list \<Rightarrow> py_error + string" where
  "get_user_prompt ordered_list_of_items =
     (let prompt =
        (if length ordered_list_of_items > 0
         then Some (''Um usu'' @ a_acute @ ''rio comprou os seguintes itens: ''
                      @ join '', '' ordered_list_of_items
                      @ ''. Quais seriam os pr'' @ o_acute
                      @ ''ximos dez itens que ele/ela provavelmente compraria?'')
         else None)
      in (case prompt of
            None \<Rightarrow> Inl TypeError
          | Some p \<Rightarrow> Inr (p @ '' '' @ json_instruction)))"

section \<open>External services and the calls made to them\<close>

text \<open>
  The code reaches two services over the network. \<open>llm_post\<close> is the HTTP POST to the
  chat endpoint: it takes the prompt (the only part of the request that varies) and gives
  the body of the response (\<^verbatim>\<open>response.text\<close>), or raises. \<open>vs_get_index\<close> and
  \<open>vs_search\<close> are \<^verbatim>\<open>get_index\<close> and \<^verbatim>\<open>similarity_search\<close> of the vector-search
  client; the search takes the query text and the number of results asked for and gives
  the decoded response.

  Every function that can call a service returns, next to its result, the list of the
  calls it made, in order; a function that raises returns the calls made before.
\<close>

datatype call = LLMPost string | GetIndex | SimilaritySearch string int

record env =
  llm_post :: "string \<Rightarrow> py_error + string"
  vs_get_index :: "py_error + unit"
  vs_search :: "string \<Rightarrow> int \<Rightarrow> py_error + json"

section \<open>General suggestions from the LLM\<close>

text \<open>
  \<^verbatim>\<open>json.loads(response.text)['choices'][0]['message']["content"]\<close>
  (03_Assemble_Recommender.py, lines 102 and 252).
\<close>

definition response_content :: "string \<Rightarrow> py_error + json" where
  "response_content body =
     (case json_loads body of
        Inl e \<Rightarrow> Inl e
      | Inr resp \<Rightarrow>
          (case py_getitem_str resp ''choices'' of
             Inl e \<Rightarrow> Inl e
           | Inr choices \<Rightarrow>
               (case py_getitem_int choices 0 of
                  Inl e \<Rightarrow> Inl e
                | Inr choice \<Rightarrow>
                    (case py_getitem_str choice ''message'' of
                       Inl e \<Rightarrow> Inl e
                     | Inr message \<Rightarrow> py_getitem_str message ''content''))))"

text \<open>
  \<^verbatim>\<open>raw_text[:raw_text.rindex('}')+1]\<close> (lines 105 and 255): the text from its start
  through the last closing brace. A content that is not a string has no \<^verbatim>\<open>rindex\<close>.
\<close>

definition extract_json_text :: "json \<Rightarrow> py_error + string" where
  "extract_json_text raw =
     (case raw of
        JString raw_text \<Rightarrow>
          (case rindex raw_text (CHR ''}'') of
             Inl e \<Rightarrow> Inl e
           | Inr i \<Rightarrow> Inr (take (i + 1) raw_text))
      | _ \<Rightarrow> Inl AttributeError)"

text \<open>The extraction followed by \<^verbatim>\<open>json.loads(json_text)\<close> (lines 105-106 and 255-256).\<close>

definition parse_response :: "json \<Rightarrow> py_error + json" where
  "parse_response raw =
     (case extract_json_text raw of Inl e \<Rightarrow> Inl e | Inr json_text \<Rightarrow> json_loads json_text)"

text \<open>
  \<^verbatim>\<open>get_general_products\<close> of the notebook (lines 76-109): the parsed value is computed
  and dropped, and the extracted text is returned.
\<close>

definition get_general_products :: "env \<Rightarrow> string list \<Rightarrow> (py_error + string) \<times> call list" where
  "get_general_products env items =
     (case get_prompt items of
        Inl e \<Rightarrow> (Inl e, [])
      | Inr prompt \<Rightarrow>
          ((case llm_post env prompt of
              Inl e \<Rightarrow> Inl e
            | Inr body \<Rightarrow>
                (case response_content body of
                   Inl e \<Rightarrow> Inl e
                 | Inr raw_text \<Rightarrow>
                     (case extract_json_text raw_text of
                        Inl e \<Rightarrow> Inl e
                      | Inr json_text \<Rightarrow>
                          (case json_loads json_text of
                             Inl e \<Rightarrow> Inl e
                           | Inr ret \<Rightarrow> Inr json_text)))),
           [LLMPost prompt]))"

text \<open>
  \<^verbatim>\<open>get_general_products\<close> of app.py (lines 208-259): the value under the key
  \<^verbatim>\<open>next_items\<close> of the parsed object is returned.
\<close>

definition get_general_products_app :: "env \<Rightarrow> string list \<Rightarrow> (py_error + json) \<times> call list" where
  "get_general_products_app env items =
     (case get_prompt_app items of
        Inl e \<Rightarrow> (Inl e, [])
      | Inr prompt \<Rightarrow>
          ((case llm_post env prompt of
              Inl e \<Rightarrow> Inl e
            | Inr body \<Rightarrow>
                (case response_content body of
                   Inl e \<Rightarrow> Inl e
                 | Inr raw_text \<Rightarrow>
                     (case extract_json_text raw_text of
                        Inl e \<Rightarrow> Inl e
                      | Inr json_text \<Rightarrow>
                          (case json_loads json_text of
                             Inl e \<Rightarrow> Inl e
                           | Inr obj \<Rightarrow> py_getitem_str obj ''next_items'')))),
           [LLMPost prompt]))"

section \<open>Specific products from the vector index\<close>

text \<open>A list comprehension whose element expression may raise: the first exception ends it.\<close>

fun collect :: "(py_error + 'a) list \<Rightarrow> py_error + 'a list" where
  "collect [] = Inr []"
| "collect (r # rs) =
     (case r of
        Inl e \<Rightarrow> Inl e
      | Inr x \<Rightarrow> (case collect rs of Inl e \<Rightarrow> Inl e | Inr xs \<Rightarrow> Inr (x # xs)))"

text \<open>\<^verbatim>\<open>[item[-2] for item in results['result']['data_array']]\<close> (lines 140 and 280).\<close>

definition project_rows :: "json \<Rightarrow> py_error + json list" where
  "project_rows results =
     (case py_getitem_str results ''result'' of
        Inl e \<Rightarrow> Inl e
      | Inr res \<Rightarrow>
          (case py_getitem_str res ''data_array'' of
             Inl e \<Rightarrow> Inl e
           | Inr data_array \<Rightarrow>
               (case py_iter data_array of
                  Inl e \<Rightarrow> Inl e
                | Inr rows \<Rightarrow> collect (map (\<lambda>item. py_getitem_int item (- 2)) rows))))"

text \<open>
  \<^verbatim>\<open>get_specific_products\<close> (lines 124-140 and 264-280; the two copies differ only in the
  names of the index and of its endpoint).
\<close>

definition get_specific_products :: "env \<Rightarrow> json \<Rightarrow> int \<Rightarrow> (py_error + json list) \<times> call list" where
  "get_specific_products env general_items num_items =
     (case vs_get_index env of
        Inl e \<Rightarrow> (Inl e, [GetIndex])
      | Inr idx \<Rightarrow>
          (let query_text = py_str general_items in
           ((case vs_search env query_text num_items of
               Inl e \<Rightarrow> Inl e
             | Inr results \<Rightarrow> project_rows results),
            [GetIndex, SimilaritySearch query_text num_items])))"

text \<open>The end-to-end call of the notebook (lines 146-149), which asks for five items.\<close>

definition notebook_recommend :: "env \<Rightarrow> string list \<Rightarrow> (py_error + json list) \<times> call list" where
  "notebook_recommend env ordered_list_of_items =
     (case get_general_products env ordered_list_of_items of
        (Inl e, calls) \<Rightarrow> (Inl e, calls)
      | (Inr general_items, calls) \<Rightarrow>
          (case get_specific_products env (JString general_items) 5 of
             (r, calls') \<Rightarrow> (r, calls @ calls')))"

text \<open>\<^verbatim>\<open>LLM4rec\<close> of app.py (lines 285-293).\<close>

definition LLM4rec :: "env \<Rightarrow> string list \<Rightarrow> int \<Rightarrow> (py_error + json list) \<times> call list" where
  "LLM4rec env items n_items =
     (case get_general_products_app env items of
        (Inl e, calls) \<Rightarrow> (Inl e, calls)
      | (Inr general_items, calls) \<Rightarrow>
          (case get_specific_products env general_items n_items of
             (specific_items, calls') \<Rightarrow> (specific_items, calls @ calls')))"

section \<open>The HTTP handler\<close>

text \<open>
  \<^verbatim>\<open>get_recommendations\<close> of app.py (lines 304-312). The framework has already checked
  that the request body is an object whose field \<^verbatim>\<open>items\<close> is a list of strings, so the
  handler receives a \<^typ>\<open>string list\<close>. It answers with the returned list (status 200)
  or raises \<^verbatim>\<open>HTTPException(status_code=500, detail=str(e))\<close>; \<open>str_of_exception\<close> is
  \<^verbatim>\<open>str\<close> on exceptions. Building the vector-search client stores the credentials and
  calls no service.
\<close>

datatype http_response = Response200 "json list" | HTTPException nat string

definition get_recommendations ::
  "env \<Rightarrow> (py_error \<Rightarrow> string) \<Rightarrow> string list \<Rightarrow> http_response \<times> call list" where
  "get_recommendations env str_of_exception items =
     (let n_items = 5 in
      case LLM4rec env items n_items of
        (Inr result, calls) \<Rightarrow> (Response200 result, calls)
      | (Inl e, calls) \<Rightarrow> (HTTPException 500 (str_of_exception e), calls))"

section \<open>The vector index\<close>

text \<open>
  Modelled from the spec: the vector index is an external service, none of its code is in
  the repository. The spec gives its contract as
  \<^verbatim>\<open>search(query_text, requested_fields, num_results)\<close> returning a ranked list of
  records that contain the requested fields plus a similarity score, and the empty list
  when the index is not populated. With the requested fields \<^verbatim>\<open>["id", "text"]\<close> a record
  is the row \<^verbatim>\<open>[id, text, score]\<close>. \<open>ranked q\<close> is the list of all records matching the
  query \<open>q\<close>, best first; the search returns its first \<open>num_results\<close> rows.
\<close>

type_synonym hit = "json \<times> string \<times> json"

definition hit_row :: "hit \<Rightarrow> json" where
  "hit_row h = (case h of (ident, text, score) \<Rightarrow> JArray [ident, JString text, score])"

definition hit_text :: "hit \<Rightarrow> string" where
  "hit_text h = (case h of (ident, text, score) \<Rightarrow> text)"

definition search_results :: "hit list \<Rightarrow> json" where
  "search_results hits = JObject [(''result'', JObject [(''data_array'', JArray (map hit_row hits))])]"

definition vector_index :: "(string \<Rightarrow> hit list) \<Rightarrow> string \<Rightarrow> int \<Rightarrow> py_error + json" where
  "vector_index ranked query_text num_results =
     Inr (search_results (take (nat num_results) (ranked query_text)))"

section \<open>Waiting for provisioning\<close>

text \<open>
  The two waits of 01_Prepare_Product_Search_Data.py read the clock, query a status and
  sleep. The clock is made explicit: \<open>now\<close> is the reading of \<^verbatim>\<open>time.time()\<close> at the head
  of the loop, in seconds. A round that sleeps moves the clock on by the sleep interval
  plus \<open>poll_elapsed w k\<close>, the time the \<open>k\<close>-th round spends otherwise (the status request
  and any delay in waking up). \<open>poll_query w k\<close> is the status seen by the \<open>k\<close>-th query, or
  the exception the query raises. The loops return the flag \<^verbatim>\<open>waiting\<close> and the number of
  queries made.
\<close>

record 'a poll_world =
  poll_query :: "nat \<Rightarrow> py_error + 'a"
  poll_elapsed :: "nat \<Rightarrow> nat"

text \<open>
  The wait for the model-serving endpoint (lines 277-298): the status is the string under
  \<^verbatim>\<open>['state']['ready']\<close>; the loop sleeps 30 seconds while it is \<^verbatim>\<open>NOT_READY\<close> and stops
  waiting on any other status.
\<close>

function endpoint_wait_loop ::
  "string poll_world \<Rightarrow> nat \<Rightarrow> nat \<Rightarrow> nat \<Rightarrow> (py_error + bool) \<times> nat" where
  "endpoint_wait_loop w stop_time now k =
     (if now \<le> stop_time then
        (case poll_query w k of
           Inl e \<Rightarrow> (Inl e, Suc k)
         | Inr status \<Rightarrow>
             if status = ''NOT_READY''
             then endpoint_wait_loop w stop_time (now + 30 + poll_elapsed w k) (Suc k)
             else (Inr False, Suc k))
      else (Inr True, k))"
  by pat_completeness auto
termination
  by (relation "measure (\<lambda>(w, stop_time, now, k). Suc stop_time - now)") auto

definition endpoint_timeout_message :: string where
  "endpoint_timeout_message =
     ''Timeout expired waiting for endpoint to achieve a ready state.  Consider elevating the timeout setting.''"

definition wait_for_endpoint :: "string poll_world \<Rightarrow> nat \<Rightarrow> (py_error + unit) \<times> nat" where
  "wait_for_endpoint w start =
     (let timeout_seconds = 30 * 60;
          stop_time = start + timeout_seconds
      in case endpoint_wait_loop w stop_time start 0 of
           (Inl e, polls) \<Rightarrow> (Inl e, polls)
         | (Inr waiting, polls) \<Rightarrow>
             if waiting then (Inl (Exception endpoint_timeout_message), polls)
             else (Inr (), polls))"

text \<open>
  The wait for the vector index (lines 407-432): the status is the boolean under
  \<^verbatim>\<open>['status']['ready']\<close>; the loop stops waiting when it is true and sleeps 60 seconds
  otherwise. The index is looked up between the computation of the deadline and the loop;
  \<open>lookup_time\<close> is the time that takes.
\<close>

function index_wait_loop ::
  "bool poll_world \<Rightarrow> nat \<Rightarrow> nat \<Rightarrow> nat \<Rightarrow> (py_error + bool) \<times> nat" where
  "index_wait_loop w stop_time now k =
     (if now \<le> stop_time then
        (case poll_query w k of
           Inl e \<Rightarrow> (Inl e, Suc k)
         | Inr is_ready \<Rightarrow>
             if is_ready then (Inr False, Suc k)
             else index_wait_loop w stop_time (now + 60 + poll_elapsed w k) (Suc k))
      else (Inr True, k))"
  by pat_completeness auto
termination
  by (relation "measure (\<lambda>(w, stop_time, now, k). Suc stop_time - now)") auto

definition index_timeout_message :: string where
  "index_timeout_message =
     ''Timeout expired waiting for index to be provisioned.  Consider elevating the timeout setting.''"

definition wait_for_index :: "bool poll_world \<Rightarrow> nat \<Rightarrow> nat \<Rightarrow> (py_error + unit) \<times> nat" where
  "wait_for_index w start lookup_time =
     (let timeout_seconds = 120 * 60;
          stop_time = start + timeout_seconds
      in case index_wait_loop w stop_time (start + lookup_time) 0 of
           (Inl e, polls) \<Rightarrow> (Inl e, polls)
         | (Inr waiting, polls) \<Rightarrow>
             if waiting then (Inl (Exception index_timeout_message), polls)
             else (Inr (), polls))"

section \<open>Properties of prompts\<close>

text \<open>
  A string contains a list of items verbatim and in order when the items can be found one
  after the other, each strictly after the end of the one before. \<open>after_first x s\<close> is the
  text of \<open>s\<close> that follows the first occurrence of \<open>x\<close>.
\<close>

fun after_first :: "string \<Rightarrow> string \<Rightarrow> string option" where
  "after_first x [] = (if x = [] then Some [] else None)"
| "after_first x (c # cs) =
     (if prefix x (c # cs) then Some (drop (length x) (c # cs)) else after_first x cs)"

fun contains_in_order :: "string list \<Rightarrow> string \<Rightarrow> bool" where
  "contains_in_order [] s = True"
| "contains_in_order (x # xs) s =
     (case after_first x s of None \<Rightarrow> False | Some rest \<Rightarrow> contains_in_order xs rest)"

section \<open>Calls in a trace\<close>

fun is_llm_post :: "call \<Rightarrow> bool" where
  "is_llm_post (LLMPost p) = True"
| "is_llm_post c = False"

fun is_vector_call :: "call \<Rightarrow> bool" where
  "is_vector_call (LLMPost p) = False"
| "is_vector_call c = True"

fun is_search :: "call \<Rightarrow> bool" where
  "is_search (SimilaritySearch q n) = True"
| "is_search c = False"

text \<open>The searches of a trace: query text and number of results asked for.\<close>

fun searches :: "call list \<Rightarrow> (string \<times> int) list" where
  "searches [] = []"
| "searches (SimilaritySearch q n # cs) = (q, n) # searches cs"
| "searches (c # cs) = searches cs"

section \<open>Sample services\<close>

text \<open>
  Concrete services on which the definitions are run. \<open>chat_body content\<close> is a response
  body of the chat endpoint whose message content is the JSON string literal \<open>content\<close>.
  \<open>sample_content\<close> is the literal for the text
  \<^verbatim>\<open>{"next_items": ["winter boots", "gloves"]} Enjoy!\<close>
\<close>

definition chat_body :: "string \<Rightarrow> string" where
  \<open>chat_body content =
     ''{"choices": [{"message": {"role": "assistant", "content": "'' @ content @ ''"}}]}''\<close>

definition esc_quote :: string where
  "esc_quote = [CHR 0x5C, CHR 0x22]"

definition sample_content :: string where
  "sample_content =
     ''{'' @ esc_quote @ ''next_items'' @ esc_quote @ '': ['' @ esc_quote @ ''winter boots'' @ esc_quote
       @ '', '' @ esc_quote @ ''gloves'' @ esc_quote @ '']} Enjoy!''"

definition sample_hits :: "hit list" where
  "sample_hits =
     [(JInt 17, ''Insulated snow boots'', JFloat ''0.93''),
      (JInt 4, ''Leather winter gloves'', JFloat ''0.90''),
      (JInt 23, ''Waterproof hiking boots'', JFloat ''0.81''),
      (JInt 8, ''Wool mittens'', JFloat ''0.77''),
      (JInt 42, ''Thermal socks'', JFloat ''0.70''),
      (JInt 15, ''Rain boots'', JFloat ''0.64'')]"

definition sample_ranked :: "string \<Rightarrow> hit list" where
  "sample_ranked q = (if q = ''['winter boots', 'gloves']'' then sample_hits else take 2 sample_hits)"

definition sample_env :: env where
  "sample_env =
     \<lparr> llm_post = (\<lambda>prompt. Inr (chat_body sample_content)),
       vs_get_index = Inr (),
       vs_search = vector_index sample_ranked \<rparr>"

definition refusal_env :: env where
  "refusal_env =
     \<lparr> llm_post = (\<lambda>prompt. Inr (chat_body ''I can not recommend anything.'')),
       vs_get_index = Inr (),
       vs_search = vector_index sample_ranked \<rparr>"

definition sample_items :: "string list" where
  "sample_items = [''scarf'', ''beanie'', ''ear muffs'']"

definition slow_endpoint :: "string poll_world" where
  "slow_endpoint =
     \<lparr> poll_query = (\<lambda>k. Inr (if k < 3 then ''NOT_READY'' else ''READY'')),
       poll_elapsed = (\<lambda>k. 2) \<rparr>"

definition stuck_endpoint :: "string poll_world" where
  "stuck_endpoint = \<lparr> poll_query = (\<lambda>k. Inr ''NOT_READY''), poll_elapsed = (\<lambda>k. 600) \<rparr>"

definition slow_index :: "bool poll_world" where
  "slow_index = \<lparr> poll_query = (\<lambda>k. Inr (2 \<le> k)), poll_elapsed = (\<lambda>k. 1) \<rparr>"

definition stuck_index :: "bool poll_world" where
  "stuck_index = \<lparr> poll_query = (\<lambda>k. Inr False), poll_elapsed = (\<lambda>k. 2000) \<rparr>"

section \<open>Lemmas about prompts\<close>

lemma after_first_sound: "after_first x s = Some r \<Longrightarrow> \<exists>pre. s = pre @ x @ r"
proof (induction s)
  case Nil then show ?case by (auto split: if_splits)
next
  case (Cons c cs)
  show ?case
  proof (cases "prefix x (c # cs)")
    case True
    then obtain t where t: "c # cs = x @ t" by (auto simp: prefix_def)
    from Cons.prems True have "r = drop (length x) (c # cs)" by simp
    with t have "r = t" by simp
    with t have "c # cs = [] @ x @ r" by simp
    then show ?thesis by blast
  next
    case False
    with Cons.prems have "after_first x cs = Some r" by simp
    from Cons.IH[OF this] obtain pre where "cs = pre @ x @ r" by blast
    then have "c # cs = (c # pre) @ x @ r" by simp
    then show ?thesis by blast
  qed
qed

lemma after_first_complete: "\<exists>b. after_first x (pre @ x @ post) = Some (b @ post)"
proof (induction pre)
  case Nil
  show ?case
  proof (cases "x @ post")
    case Nil then show ?thesis by simp
  next
    case (Cons c cs)
    have p: "prefix x (c # cs)" unfolding Cons[symmetric] by simp
    have "drop (length x) (c # cs) = post" unfolding Cons[symmetric] by simp
    with p have "after_first x (c # cs) = Some post" by simp
    then have "after_first x (x @ post) = Some post" unfolding Cons .
    then show ?thesis by (intro exI[of _ "[]"]) simp
  qed
next
  case (Cons p ps)
  show ?case
  proof (cases "prefix x (p # ps @ x @ post)")
    case True
    have "drop (length x) (((p # ps) @ x) @ post) = drop (length x) ((p # ps) @ x) @ post"
      by (subst drop_append) simp
    then have "drop (length x) (p # ps @ x @ post) = drop (length x) ((p # ps) @ x) @ post"
      by simp
    with True have "after_first x ((p # ps) @ x @ post) = Some (drop (length x) ((p # ps) @ x) @ post)"
      by simp
    then show ?thesis by blast
  next
    case False
    with Cons.IH show ?thesis by simp
  qed
qed

lemma contains_in_order_mono: "contains_in_order xs s \<Longrightarrow> contains_in_order xs (a @ s)"
proof (induction xs arbitrary: s a)
  case Nil then show ?case by simp
next
  case (Cons x xs)
  from Cons.prems obtain r where r: "after_first x s = Some r" "contains_in_order xs r"
    by (auto split: option.splits)
  from after_first_sound[OF r(1)] obtain pre where "s = pre @ x @ r" by blast
  then have "a @ s = (a @ pre) @ x @ r" by simp
  with after_first_complete[of x "a @ pre" r] obtain b where "after_first x (a @ s) = Some (b @ r)"
    by auto
  with Cons.IH[OF r(2), of b] show ?case by simp
qed

lemma contains_in_order_Cons_iff:
  "contains_in_order (x # xs) s \<longleftrightarrow> (\<exists>pre post. s = pre @ x @ post \<and> contains_in_order xs post)"
proof
  assume "contains_in_order (x # xs) s"
  then obtain r where r: "after_first x s = Some r" "contains_in_order xs r"
    by (auto split: option.splits)
  from after_first_sound[OF r(1)] r(2) show "\<exists>pre post. s = pre @ x @ post \<and> contains_in_order xs post"
    by blast
next
  assume "\<exists>pre post. s = pre @ x @ post \<and> contains_in_order xs post"
  then obtain pre post where s: "s = pre @ x @ post" and c: "contains_in_order xs post" by blast
  from after_first_complete[of x pre post] obtain b where "after_first x s = Some (b @ post)"
    using s by auto
  with contains_in_order_mono[OF c, of b] show "contains_in_order (x # xs) s" by simp
qed

lemma contains_in_order_append:
  "contains_in_order xs s1 \<Longrightarrow> contains_in_order ys s2 \<Longrightarrow> contains_in_order (xs @ ys) (s1 @ s2)"
proof (induction xs arbitrary: s1)
  case Nil then show ?case by (simp add: contains_in_order_mono)
next
  case (Cons x xs)
  from Cons.prems(1) obtain pre post where s1: "s1 = pre @ x @ post" and c: "contains_in_order xs post"
    unfolding contains_in_order_Cons_iff by blast
  have "contains_in_order (xs @ ys) (post @ s2)" by (rule Cons.IH[OF c Cons.prems(2)])
  moreover have "s1 @ s2 = pre @ x @ (post @ s2)" using s1 by simp
  ultimately show ?case unfolding append_Cons contains_in_order_Cons_iff by blast
qed

lemma contains_in_order_join: "contains_in_order xs (join sep xs @ post)"
proof (induction sep xs rule: join.induct)
  case (1 sep) show ?case by simp
next
  case (2 sep x)
  have "x @ post = [] @ x @ post" by simp
  then show ?case unfolding contains_in_order_Cons_iff join.simps by (metis contains_in_order.simps(1))
next
  case (3 sep x y ys)
  have "contains_in_order (y # ys) (sep @ join sep (y # ys) @ post)"
    using contains_in_order_mono[OF 3] by simp
  moreover have "join sep (x # y # ys) @ post = [] @ x @ (sep @ join sep (y # ys) @ post)" by simp
  ultimately show ?case unfolding contains_in_order_Cons_iff[of x] by blast
qed

lemma items_delimited_nonempty:
  assumes "items \<noteq> []"
  shows "\<exists>d. items_delimited items = Inr d \<and> (\<forall>post. contains_in_order items (d @ post))"
proof (cases "length items > 1")
  case True
  let ?d = "join '', '' (butlast items) @ '', and '' @ last items"
  have d: "items_delimited items = Inr ?d" using True by (simp add: items_delimited_def)
  have "contains_in_order items (?d @ post)" for post
  proof -
    have a: "contains_in_order (butlast items) (join '', '' (butlast items) @ '', and '')"
      by (rule contains_in_order_join)
    have "last items @ post = [] @ last items @ post" by simp
    then have b: "contains_in_order [last items] (last items @ post)"
      unfolding contains_in_order_Cons_iff by (metis contains_in_order.simps(1))
    have "contains_in_order (butlast items @ [last items])
            ((join '', '' (butlast items) @ '', and '') @ (last items @ post))"
      by (rule contains_in_order_append[OF a b])
    then show ?thesis using assms by simp
  qed
  with d show ?thesis by blast
next
  case False
  with assms obtain x where x: "items = [x]" by (cases items) auto
  then have d: "items_delimited items = Inr x" by (simp add: items_delimited_def)
  have "contains_in_order items (x @ post)" for post
  proof -
    have "x @ post = [] @ x @ post" by simp
    then show ?thesis unfolding x contains_in_order_Cons_iff by (metis contains_in_order.simps(1))
  qed
  with d show ?thesis by blast
qed

lemma contains_then_instruction:
  assumes "contains_in_order items (d @ mid)"
  shows "contains_in_order (items @ [instr]) (pre @ d @ mid @ instr @ post)"
proof -
  have "instr @ post = [] @ instr @ post" by simp
  then have b: "contains_in_order [instr] (instr @ post)"
    unfolding contains_in_order_Cons_iff by (metis contains_in_order.simps(1))
  have "contains_in_order (items @ [instr]) ((d @ mid) @ (instr @ post))"
    by (rule contains_in_order_append[OF assms b])
  then have "contains_in_order (items @ [instr]) (pre @ ((d @ mid) @ (instr @ post)))"
    by (rule contains_in_order_mono)
  then show ?thesis by simp
qed

lemma get_prompt_contains:
  assumes "items \<noteq> []"
  shows "\<exists>p. get_prompt items = Inr p \<and> contains_in_order (items @ [json_instruction]) p"
proof -
  from items_delimited_nonempty[OF assms] obtain d where
    d: "items_delimited items = Inr d" and c: "\<And>post. contains_in_order items (d @ post)" by blast
  define pre where "pre = ''[INST] <<SYS>>\<newline>'' @ system_prompt @ ''\<newline><</SYS>>\<newline>'' @ ''Um usu'' @ a_acute @ ''rio comprou ''"
  define mid where "mid = '' nessa ordem. Quais seriam os cinco itens que ele/ela provavelmente compraria em seguida?''"
  have p: "get_prompt items = Inr (pre @ d @ mid @ json_instruction @ ''[/INST]'')"
    using d by (simp add: get_prompt_def assemble_prompt_def user_prompt_def pre_def mid_def)
  from contains_then_instruction[OF c] p show ?thesis by metis
qed

lemma get_prompt_app_contains:
  assumes "items \<noteq> []"
  shows "\<exists>p. get_prompt_app items = Inr p \<and> contains_in_order (items @ [json_instruction_app]) p"
proof -
  from items_delimited_nonempty[OF assms] obtain d where
    d: "items_delimited items = Inr d" and c: "\<And>post. contains_in_order items (d @ post)" by blast
  define pre where "pre = ''[INST] <<SYS>>\<newline>'' @ system_prompt_app @ ''\<newline><</SYS>>\<newline>'' @ ''A user bought ''"
  define mid where "mid = '' in that order. What five items would he/she be likely to purchase next?''"
  have p: "get_prompt_app items = Inr (pre @ d @ mid @ json_instruction_app @ ''[/INST]'')"
    using d by (simp add: get_prompt_app_def assemble_prompt_def user_prompt_app_def pre_def mid_def)
  from contains_then_instruction[OF c] p show ?thesis by metis
qed

lemma get_user_prompt_contains:
  assumes "items \<noteq> []"
  shows "\<exists>p. get_user_prompt items = Inr p \<and> contains_in_order (items @ [json_instruction]) p"
proof -
  define pre where "pre = ''Um usu'' @ a_acute @ ''rio comprou os seguintes itens: ''"
  define mid where "mid = ''. Quais seriam os pr'' @ o_acute @ ''ximos dez itens que ele/ela provavelmente compraria? ''"
  have p: "get_user_prompt items = Inr (pre @ join '', '' items @ mid @ json_instruction @ [])"
    using assms by (simp add: get_user_prompt_def pre_def mid_def)
  have c: "contains_in_order items (join '', '' items @ mid)" by (rule contains_in_order_join)
  from contains_then_instruction[OF c] p show ?thesis by metis
qed

lemma json_instruction_names_key:
  "sublist ''um objeto JSON com uma chave 'next_items' e um valor representando sua matriz'' json_instruction"
  unfolding sublist_def json_instruction_def
  by (rule exI[of _ "''Expresse sua resposta como ''"], rule exI[of _ "'' de itens recomendados.''"]) simp

lemma json_instruction_app_names_key:
  "sublist ''a JSON object with a key of 'next_items' and a value representing your array'' json_instruction_app"
  unfolding sublist_def json_instruction_app_def
  by (rule exI[of _ "''Express your response as ''"], rule exI[of _ "'' of recommended items.''"]) simp

section \<open>Lemmas about the extraction of the JSON text\<close>

lemma rindex_from_absent: "c \<notin> set xs \<Longrightarrow> rindex_from c xs i found = found"
  by (induction xs arbitrary: i found) auto

lemma rindex_from_append:
  "rindex_from c (xs @ ys) i found = rindex_from c ys (i + length xs) (rindex_from c xs i found)"
  by (induction xs arbitrary: i found) auto

lemma rindex_absent: "c \<notin> set s \<Longrightarrow> rindex s c = Inl ValueError"
  by (simp add: rindex_def rindex_from_absent)

lemma rindex_last_occurrence:
  assumes "c \<notin> set ys"
  shows "rindex (xs @ c # ys) c = Inr (length xs)"
proof -
  have "rindex_from c (xs @ c # ys) 0 None = rindex_from c (c # ys) (length xs) (rindex_from c xs 0 None)"
    by (simp add: rindex_from_append)
  also have "\<dots> = rindex_from c ys (Suc (length xs)) (Some (length xs))" by simp
  also have "\<dots> = Some (length xs)" using assms by (rule rindex_from_absent)
  finally show ?thesis by (simp add: rindex_def)
qed

lemma rindex_present: "c \<in> set s \<Longrightarrow> \<exists>i. rindex s c = Inr i \<and> i < length s \<and> s ! i = c \<and> c \<notin> set (drop (Suc i) s)"
proof -
  assume "c \<in> set s"
  then obtain xs ys where s: "s = xs @ c # ys" and n: "c \<notin> set ys"
    by (meson split_list_last)
  from rindex_last_occurrence[OF n] s show ?thesis using n by (auto simp: nth_append)
qed

lemma extract_json_text_trailing:
  assumes "obj \<noteq> []" "last obj = CHR ''}''" "CHR ''}'' \<notin> set trailing"
  shows "extract_json_text (JString (obj @ trailing)) = Inr obj"
proof -
  from assms(1,2) obtain b where obj: "obj = b @ [CHR ''}'']" by (metis append_butlast_last_id)
  have split: "obj @ trailing = b @ CHR ''}'' # trailing" unfolding obj by simp
  have r: "rindex (obj @ trailing) (CHR ''}'') = Inr (length b)"
    unfolding split by (rule rindex_last_occurrence[OF assms(3)])
  have t: "take (length b + 1) (obj @ trailing) = obj" unfolding obj by simp
  show ?thesis unfolding extract_json_text_def json.case r sum.case t ..
qed

lemma json_loads_error: "json_loads s = Inl e \<Longrightarrow> e = JSONDecodeError"
  by (auto simp: json_loads_def split: option.splits prod.splits if_splits)

section \<open>The prompt builder\<close>

text \<open>
  C4. For every non-empty list of item names, each of the three prompt builders returns a
  prompt in which every item occurs verbatim, in the order of the list, followed by the
  sentence that asks for a JSON object with the key \<^verbatim>\<open>next_items\<close> whose value is the array
  of recommended items.
\<close>

theorem prompt_contains_items_in_order:
  assumes "items \<noteq> []"
  shows "(\<exists>p. get_prompt items = Inr p \<and> contains_in_order (items @ [json_instruction]) p)
       \<and> (\<exists>p. get_prompt_app items = Inr p \<and> contains_in_order (items @ [json_instruction_app]) p)
       \<and> (\<exists>p. get_user_prompt items = Inr p \<and> contains_in_order (items @ [json_instruction]) p)
       \<and> sublist ''um objeto JSON com uma chave 'next_items' e um valor representando sua matriz''
            json_instruction
       \<and> sublist ''a JSON object with a key of 'next_items' and a value representing your array''
            json_instruction_app"
  using get_prompt_contains[OF assms] get_prompt_app_contains[OF assms]
    get_user_prompt_contains[OF assms] json_instruction_names_key json_instruction_app_names_key
  by blast

text \<open>The three builders on the list \<^verbatim>\<open>["scarf", "beanie", "ear muffs"]\<close>.\<close>

theorem prompt_contains_items_in_order_witness:
  "sample_items \<noteq> []
   \<and> (\<exists>p. get_prompt sample_items = Inr p \<and> contains_in_order (sample_items @ [json_instruction]) p)
   \<and> (\<exists>p. get_prompt_app sample_items = Inr p
          \<and> contains_in_order (sample_items @ [json_instruction_app]) p)
   \<and> (\<exists>p. get_user_prompt sample_items = Inr p
          \<and> contains_in_order (sample_items @ [json_instruction]) p)"
proof -
  have h: "sample_items \<noteq> []" by (simp add: sample_items_def)
  show ?thesis using h prompt_contains_items_in_order[OF h] by blast
qed

text \<open>
  C5. On the empty item list the prompt builders raise (IndexError from \<^verbatim>\<open>items[0]\<close>,
  TypeError from adding a string to \<^verbatim>\<open>None\<close>), and every function built on them raises
  with an empty list of calls: no request has been sent to the LLM or to the vector index.
  The handler turns the exception into status 500.
\<close>

theorem empty_item_list_fails_before_any_call:
  "get_prompt [] = Inl IndexError
   \<and> get_prompt_app [] = Inl IndexError
   \<and> get_user_prompt [] = Inl TypeError
   \<and> get_general_products env [] = (Inl IndexError, [])
   \<and> get_general_products_app env [] = (Inl IndexError, [])
   \<and> notebook_recommend env [] = (Inl IndexError, [])
   \<and> LLM4rec env [] n_items = (Inl IndexError, [])
   \<and> get_recommendations env str_of_exception [] = (HTTPException 500 (str_of_exception IndexError), [])"
  by (simp add: get_prompt_def get_prompt_app_def get_user_prompt_def items_delimited_def
      get_general_products_def get_general_products_app_def notebook_recommend_def LLM4rec_def
      get_recommendations_def)

section \<open>The response parser\<close>

text \<open>
  C1, as stated, would give the parsed object for any prose followed by a well-formed JSON
  object. The slice starts at the beginning of the text, so the prose is handed to
  \<^verbatim>\<open>json.loads\<close> with the object, which raises.
\<close>

theorem parse_response_leading_prose_counterexample:
  \<open>json_loads ''{"next_items": ["gloves"]}'' = Inr (JObject [(''next_items'', JArray [JString ''gloves''])])
   \<and> parse_response (JString (''Here are my suggestions: '' @ ''{"next_items": ["gloves"]}''))
       = Inl JSONDecodeError\<close>
  by code_simp

text \<open>
  C1, amended. For every text that consists of a well-formed JSON value ending in a closing
  brace, followed by any text without a closing brace, the parser returns the parsed
  value: text after the object is cut off, text before it is not.
\<close>

theorem parse_response_object_then_trailing_text:
  assumes "json_loads obj = Inr v"
      and "obj \<noteq> []" and "last obj = CHR ''}''"
      and "CHR ''}'' \<notin> set trailing"
  shows "parse_response (JString (obj @ trailing)) = Inr v"
  using extract_json_text_trailing[OF assms(2,3,4)] assms(1) by (simp add: parse_response_def)

text \<open>The object \<^verbatim>\<open>{"next_items": ["gloves"]}\<close> followed by a closing remark.\<close>

theorem parse_response_object_then_trailing_text_witness:
  \<open>json_loads ''{"next_items": ["gloves"]}'' = Inr (JObject [(''next_items'', JArray [JString ''gloves''])])
   \<and> ''{"next_items": ["gloves"]}'' \<noteq> [] \<and> last ''{"next_items": ["gloves"]}'' = CHR ''}''
   \<and> CHR ''}'' \<notin> set '' I hope this helps!''
   \<and> parse_response (JString (''{"next_items": ["gloves"]}'' @ '' I hope this helps!''))
       = Inr (JObject [(''next_items'', JArray [JString ''gloves''])])\<close>
proof -
  have h1: \<open>json_loads ''{"next_items": ["gloves"]}'' = Inr (JObject [(''next_items'', JArray [JString ''gloves''])])\<close>
    by code_simp
  have h2: \<open>''{"next_items": ["gloves"]}'' \<noteq> []\<close> by simp
  have h3: \<open>last ''{"next_items": ["gloves"]}'' = CHR ''}''\<close> by simp
  have h4: \<open>CHR ''}'' \<notin> set '' I hope this helps!''\<close> by simp
  show ?thesis using h1 h2 h3 h4 parse_response_object_then_trailing_text[OF h1 h2 h3 h4] by blast
qed

section \<open>Lemmas about the orchestrator\<close>

lemma hit_row_text: "py_getitem_int (hit_row h) (- 2) = Inr (JString (hit_text h))"
  by (cases h) (simp add: hit_row_def hit_text_def py_index_def)

lemma collect_hit_rows:
  "collect (map (\<lambda>h. py_getitem_int (hit_row h) (- 2)) hits)
     = Inr (map (\<lambda>h. JString (hit_text h)) hits)"
  by (induction hits) (simp_all add: hit_row_text)

lemma project_rows_search_results:
  "project_rows (search_results hits) = Inr (map (\<lambda>h. JString (hit_text h)) hits)"
  by (simp add: project_rows_def search_results_def comp_def collect_hit_rows)

lemma get_specific_products_search_results:
  assumes "vs_get_index env = Inr u"
      and "vs_search env (py_str general_items) num_items = Inr (search_results hits)"
  shows "get_specific_products env general_items num_items
           = (Inr (map (\<lambda>h. JString (hit_text h)) hits),
              [GetIndex, SimilaritySearch (py_str general_items) num_items])"
  using assms by (simp add: get_specific_products_def Let_def project_rows_search_results)

lemma get_specific_products_calls:
  "snd (get_specific_products env g n) = [GetIndex] \<or>
   snd (get_specific_products env g n) = [GetIndex, SimilaritySearch (py_str g) n]"
  by (simp add: get_specific_products_def Let_def split: sum.splits)

lemma get_general_products_app_calls:
  "snd (get_general_products_app env items) = [] \<or>
   (\<exists>p. snd (get_general_products_app env items) = [LLMPost p])"
  by (simp add: get_general_products_app_def split: sum.splits)

lemma LLM4rec_calls:
  "\<exists>pre post. snd (LLM4rec env items n) = pre @ post
     \<and> (pre = [] \<or> (\<exists>p. pre = [LLMPost p]))
     \<and> (post = [] \<or> post = [GetIndex] \<or> (\<exists>q. post = [GetIndex, SimilaritySearch q n]))"
proof (cases "get_general_products_app env items")
  case (Pair r calls)
  from get_general_products_app_calls[of env items] Pair
  have c: "calls = [] \<or> (\<exists>p. calls = [LLMPost p])" by simp
  show ?thesis
  proof (cases r)
    case (Inl e)
    with Pair have "snd (LLM4rec env items n) = calls @ []" by (simp add: LLM4rec_def)
    with c show ?thesis by blast
  next
    case (Inr g)
    obtain s calls' where s: "get_specific_products env g n = (s, calls')" by (cases "get_specific_products env g n")
    with Pair Inr have "snd (LLM4rec env items n) = calls @ calls'" by (simp add: LLM4rec_def)
    moreover from get_specific_products_calls[of env g n] s
    have "calls' = [GetIndex] \<or> calls' = [GetIndex, SimilaritySearch (py_str g) n]" by simp
    ultimately show ?thesis using c by blast
  qed
qed

lemma get_prompt_app_nonempty: "items \<noteq> [] \<Longrightarrow> \<exists>p. get_prompt_app items = Inr p"
  by (cases items) (auto simp: get_prompt_app_def items_delimited_def)

lemma get_prompt_nonempty: "items \<noteq> [] \<Longrightarrow> \<exists>p. get_prompt items = Inr p"
  by (cases items) (auto simp: get_prompt_def items_delimited_def)

lemma extract_json_text_no_brace:
  "CHR ''}'' \<notin> set raw_text \<Longrightarrow> extract_json_text (JString raw_text) = Inl ValueError"
  by (simp add: extract_json_text_def rindex_absent)

lemma extract_json_text_Inr_brace:
  "extract_json_text (JString raw_text) = Inr json_text \<Longrightarrow> CHR ''}'' \<in> set raw_text"
  using extract_json_text_no_brace[of raw_text] by auto

lemma parse_response_failure:
  assumes "CHR ''}'' \<notin> set raw_text \<or>
           (\<exists>json_text e. extract_json_text (JString raw_text) = Inr json_text \<and> json_loads json_text = Inl e)"
  shows "(case extract_json_text (JString raw_text) of Inl e \<Rightarrow> Inl e | Inr json_text \<Rightarrow> json_loads json_text)
           = Inl (if CHR ''}'' \<in> set raw_text then JSONDecodeError else ValueError)"
  using assms
proof
  assume "CHR ''}'' \<notin> set raw_text"
  then show ?thesis by (simp add: extract_json_text_no_brace)
next
  assume "\<exists>json_text e. extract_json_text (JString raw_text) = Inr json_text \<and> json_loads json_text = Inl e"
  then obtain json_text e where x: "extract_json_text (JString raw_text) = Inr json_text"
    and l: "json_loads json_text = Inl e" by blast
  from json_loads_error[OF l] l have "json_loads json_text = Inl JSONDecodeError" by simp
  with x extract_json_text_Inr_brace[OF x] show ?thesis by simp
qed

text \<open>
  C2. When the response text of the LLM holds no closing brace, or the text cut at its last
  closing brace is not valid JSON, the parser raises (ValueError from \<^verbatim>\<open>rindex\<close> in the
  first case, JSONDecodeError in the second; these are what the specification calls
  MalformedResponse), \<^verbatim>\<open>LLM4rec\<close> and the notebook pipeline raise the same exception, and
  the only call made is the request to the LLM: the vector index is neither looked up nor
  searched.
\<close>

theorem malformed_response_fails_before_search:
  assumes "items \<noteq> []"
      and "\<forall>prompt. llm_post env prompt = Inr body"
      and "response_content body = Inr (JString raw_text)"
      and "CHR ''}'' \<notin> set raw_text \<or>
           (\<exists>json_text e. extract_json_text (JString raw_text) = Inr json_text
                         \<and> json_loads json_text = Inl e)"
  shows "\<exists>e prompt prompt_nb.
           e = (if CHR ''}'' \<in> set raw_text then JSONDecodeError else ValueError)
         \<and> parse_response (JString raw_text) = Inl e
         \<and> LLM4rec env items n_items = (Inl e, [LLMPost prompt])
         \<and> notebook_recommend env items = (Inl e, [LLMPost prompt_nb])
         \<and> filter is_vector_call (snd (LLM4rec env items n_items)) = []
         \<and> filter is_vector_call (snd (notebook_recommend env items)) = []"
proof -
  let ?e = "if CHR ''}'' \<in> set raw_text then JSONDecodeError else ValueError"
  from get_prompt_app_nonempty[OF assms(1)] obtain prompt where p: "get_prompt_app items = Inr prompt" by blast
  from get_prompt_nonempty[OF assms(1)] obtain prompt_nb where q: "get_prompt items = Inr prompt_nb" by blast
  note f = parse_response_failure[OF assms(4)]
  have 1: "parse_response (JString raw_text) = Inl ?e"
    unfolding parse_response_def by (rule f)
  have g: "get_general_products_app env items = (Inl ?e, [LLMPost prompt])"
  proof (cases "extract_json_text (JString raw_text)")
    case (Inl x)
    with f have "x = ?e" by simp
    with Inl p assms(2,3) show ?thesis by (simp add: get_general_products_app_def)
  next
    case (Inr json_text)
    with f have "json_loads json_text = Inl ?e" by simp
    with Inr p assms(2,3) show ?thesis by (simp add: get_general_products_app_def)
  qed
  have h: "get_general_products env items = (Inl ?e, [LLMPost prompt_nb])"
  proof (cases "extract_json_text (JString raw_text)")
    case (Inl x)
    with f have "x = ?e" by simp
    with Inl q assms(2,3) show ?thesis by (simp add: get_general_products_def)
  next
    case (Inr json_text)
    with f have "json_loads json_text = Inl ?e" by simp
    with Inr q assms(2,3) show ?thesis by (simp add: get_general_products_def)
  qed
  have 2: "LLM4rec env items n_items = (Inl ?e, [LLMPost prompt])"
    using g by (simp add: LLM4rec_def)
  have 3: "notebook_recommend env items = (Inl ?e, [LLMPost prompt_nb])"
    using h by (simp add: notebook_recommend_def)
  have 4: "filter is_vector_call (snd (LLM4rec env items n_items)) = []" unfolding 2 by simp
  have 5: "filter is_vector_call (snd (notebook_recommend env items)) = []" unfolding 3 by simp
  from 1 2 3 4 5 show ?thesis by blast
qed

text \<open>An LLM that answers with a sentence and no JSON.\<close>

theorem malformed_response_fails_before_search_witness:
  "fst (LLM4rec refusal_env sample_items 5) = Inl ValueError
   \<and> fst (notebook_recommend refusal_env sample_items) = Inl ValueError
   \<and> filter is_vector_call (snd (LLM4rec refusal_env sample_items 5)) = []
   \<and> filter is_vector_call (snd (notebook_recommend refusal_env sample_items)) = []"
proof -
  have h1: "sample_items \<noteq> []" by (simp add: sample_items_def)
  have h2: "\<forall>prompt. llm_post refusal_env prompt = Inr (chat_body ''I can not recommend anything.'')"
    by (simp add: refusal_env_def)
  have h3: "response_content (chat_body ''I can not recommend anything.'')
              = Inr (JString ''I can not recommend anything.'')"
    by code_simp
  have h4: "CHR ''}'' \<notin> set ''I can not recommend anything.'' \<or>
           (\<exists>json_text e. extract_json_text (JString ''I can not recommend anything.'') = Inr json_text
                         \<and> json_loads json_text = Inl e)"
    by simp
  from malformed_response_fails_before_search[OF h1 h2 h3 h4, of 5]
  show ?thesis by auto
qed

section \<open>The search for specific products\<close>

text \<open>
  C3. Let the vector index behave as its contract says (\<open>vector_index\<close>) and let the number
  of items asked for be at least one. Then \<^verbatim>\<open>get_specific_products\<close> returns a list and
  does not raise; the list has exactly the requested length when the index holds at least
  that many records for the query, and as many entries as the index holds otherwise.
\<close>

theorem specific_products_length:
  assumes "1 \<le> num_items"
      and "vs_get_index env = Inr ()"
      and "vs_search env = vector_index ranked"
  shows "\<exists>out. fst (get_specific_products env general_items num_items) = Inr out
           \<and> (num_items \<le> int (length (ranked (py_str general_items)))
                \<longrightarrow> int (length out) = num_items)
           \<and> (int (length (ranked (py_str general_items))) < num_items
                \<longrightarrow> length out = length (ranked (py_str general_items)))"
proof -
  let ?hits = "take (nat num_items) (ranked (py_str general_items))"
  have "vs_search env (py_str general_items) num_items = Inr (search_results ?hits)"
    using assms(3) by (simp add: vector_index_def)
  from get_specific_products_search_results[OF assms(2) this]
  have "fst (get_specific_products env general_items num_items)
          = Inr (map (\<lambda>h. JString (hit_text h)) ?hits)" by simp
  moreover have "num_items \<le> int (length (ranked (py_str general_items)))
      \<longrightarrow> int (length (map (\<lambda>h. JString (hit_text h)) ?hits)) = num_items"
    using assms(1) by auto
  moreover have "int (length (ranked (py_str general_items))) < num_items
      \<longrightarrow> length (map (\<lambda>h. JString (hit_text h)) ?hits) = length (ranked (py_str general_items))"
    by auto
  ultimately show ?thesis by blast
qed

text \<open>Five items asked of an index that holds six records for one query and two for
  another.\<close>

theorem specific_products_length_witness:
  "(\<exists>out. fst (get_specific_products sample_env (JArray [JString ''winter boots'', JString ''gloves'']) 5) = Inr out
         \<and> length out = 5)
   \<and> (\<exists>out. fst (get_specific_products sample_env (JString ''umbrella'') 5) = Inr out
         \<and> length out = 2)"
proof -
  have h1: "(1::int) \<le> 5" by simp
  have h2: "vs_get_index sample_env = Inr ()" by (simp add: sample_env_def)
  have h3: "vs_search sample_env = vector_index sample_ranked" by (simp add: sample_env_def)
  have r1: "length (sample_ranked (py_str (JArray [JString ''winter boots'', JString ''gloves'']))) = 6"
    by code_simp
  have r2: "length (sample_ranked (py_str (JString ''umbrella''))) = 2"
    by code_simp
  from specific_products_length[OF h1 h2 h3, of "JArray [JString ''winter boots'', JString ''gloves'']"] r1
  have a: "\<exists>out. fst (get_specific_products sample_env (JArray [JString ''winter boots'', JString ''gloves'']) 5) = Inr out
         \<and> length out = 5" by auto
  from specific_products_length[OF h1 h2 h3, of "JString ''umbrella''"] r2
  have b: "\<exists>out. fst (get_specific_products sample_env (JString ''umbrella'') 5) = Inr out
         \<and> length out = 2" by auto
  from a b show ?thesis by blast
qed

text \<open>
  C6. When the search returns rows of the shape \<^verbatim>\<open>[id, text, score]\<close>, the output of
  \<^verbatim>\<open>get_specific_products\<close> is the list of the \<^verbatim>\<open>text\<close> fields of the rows, in the order
  in which the index returned them; on such a row \<^verbatim>\<open>item[-2]\<close> is the \<^verbatim>\<open>text\<close> field.
\<close>

theorem specific_products_text_column:
  assumes "vs_get_index env = Inr ()"
      and "vs_search env (py_str general_items) num_items = Inr (search_results hits)"
  shows "fst (get_specific_products env general_items num_items)
           = Inr (map (\<lambda>h. JString (hit_text h)) hits)
         \<and> py_getitem_int (JArray [ident, JString text, score]) (- 2) = Inr (JString text)"
  using get_specific_products_search_results[OF assms] by (simp add: py_index_def)

theorem specific_products_text_column_witness:
  "fst (get_specific_products sample_env (JString ''umbrella'') 3)
     = Inr [JString ''Insulated snow boots'', JString ''Leather winter gloves'']"
proof -
  have h1: "vs_get_index sample_env = Inr ()" by (simp add: sample_env_def)
  have h2: "vs_search sample_env (py_str (JString ''umbrella'')) 3 = Inr (search_results (take 2 sample_hits))"
    by (simp add: sample_env_def vector_index_def sample_ranked_def py_str_def sample_hits_def)
  from specific_products_text_column[OF h1 h2]
  show ?thesis by (simp add: sample_hits_def hit_text_def)
qed

section \<open>The HTTP front door\<close>

text \<open>
  C7. The handler answers with the list returned by \<^verbatim>\<open>LLM4rec\<close> when it returns, and with
  status 500 and the text of the exception as detail when it raises, whatever the
  exception. It makes exactly the calls \<^verbatim>\<open>LLM4rec\<close> makes, and these hold at most one
  request to the LLM and at most one search: no call is repeated.
\<close>

theorem front_door_response:
  "(case LLM4rec env items 5 of
      (Inr result, calls) \<Rightarrow>
        get_recommendations env str_of_exception items = (Response200 result, calls)
    | (Inl e, calls) \<Rightarrow>
        get_recommendations env str_of_exception items = (HTTPException 500 (str_of_exception e), calls))
   \<and> length (filter is_llm_post (snd (get_recommendations env str_of_exception items))) \<le> 1
   \<and> length (filter is_search (snd (get_recommendations env str_of_exception items))) \<le> 1"
proof -
  have s: "snd (get_recommendations env str_of_exception items) = snd (LLM4rec env items 5)"
    by (simp add: get_recommendations_def split: prod.splits sum.splits)
  from LLM4rec_calls[of env items 5] obtain pre post where
    c: "snd (LLM4rec env items 5) = pre @ post"
       "pre = [] \<or> (\<exists>p. pre = [LLMPost p])"
       "post = [] \<or> post = [GetIndex] \<or> (\<exists>q. post = [GetIndex, SimilaritySearch q 5])" by blast
  have "length (filter is_llm_post (pre @ post)) \<le> 1" using c(2,3) by auto
  moreover have "length (filter is_search (pre @ post)) \<le> 1" using c(2,3) by auto
  moreover have "(case LLM4rec env items 5 of
      (Inr result, calls) \<Rightarrow>
        get_recommendations env str_of_exception items = (Response200 result, calls)
    | (Inl e, calls) \<Rightarrow>
        get_recommendations env str_of_exception items = (HTTPException 500 (str_of_exception e), calls))"
    by (simp add: get_recommendations_def split: prod.splits sum.splits)
  ultimately show ?thesis unfolding s c(1) by blast
qed

text \<open>A request that succeeds and one whose LLM response holds no JSON.\<close>

theorem front_door_response_witness:
  "fst (get_recommendations sample_env (\<lambda>e. ''failed'') sample_items)
     = Response200 [JString ''Insulated snow boots'', JString ''Leather winter gloves'',
                    JString ''Waterproof hiking boots'', JString ''Wool mittens'', JString ''Thermal socks'']
   \<and> fst (get_recommendations refusal_env (\<lambda>e. ''failed'') sample_items) = HTTPException 500 ''failed''
   \<and> length (filter is_llm_post (snd (get_recommendations sample_env (\<lambda>e. ''failed'') sample_items))) \<le> 1
   \<and> length (filter is_search (snd (get_recommendations sample_env (\<lambda>e. ''failed'') sample_items))) \<le> 1"
proof -
  have a: "fst (get_recommendations sample_env (\<lambda>e. ''failed'') sample_items)
     = Response200 [JString ''Insulated snow boots'', JString ''Leather winter gloves'',
                    JString ''Waterproof hiking boots'', JString ''Wool mittens'', JString ''Thermal socks'']"
    by code_simp
  have b: "fst (get_recommendations refusal_env (\<lambda>e. ''failed'') sample_items) = HTTPException 500 ''failed''"
    by code_simp
  from a b front_door_response[where env = sample_env and items = sample_items
      and str_of_exception = "\<lambda>e. ''failed''"] show ?thesis by blast
qed

text \<open>
  C9. Whatever the request holds, every search the handler triggers asks for five results;
  and when the vector index behaves as its contract says, a successful response holds at
  most five entries, each of them a string.
\<close>

theorem handler_asks_for_five:
  "(\<forall>q n. (q, n) \<in> set (searches (snd (get_recommendations env str_of_exception items))) \<longrightarrow> n = 5)
   \<and> (vs_search env = vector_index ranked \<longrightarrow>
        (\<forall>out. fst (get_recommendations env str_of_exception items) = Response200 out
               \<longrightarrow> length out \<le> 5 \<and> (\<forall>x \<in> set out. \<exists>text. x = JString text)))"
proof -
  have s: "snd (get_recommendations env str_of_exception items) = snd (LLM4rec env items 5)"
    by (simp add: get_recommendations_def split: prod.splits sum.splits)
  from LLM4rec_calls[of env items 5] obtain pre post where
    c: "snd (LLM4rec env items 5) = pre @ post"
       "pre = [] \<or> (\<exists>p. pre = [LLMPost p])"
       "post = [] \<or> post = [GetIndex] \<or> (\<exists>q. post = [GetIndex, SimilaritySearch q 5])" by blast
  have a: "\<forall>q n. (q, n) \<in> set (searches (pre @ post)) \<longrightarrow> n = 5" using c(2,3) by auto
  have b: "length out \<le> 5 \<and> (\<forall>x \<in> set out. \<exists>text. x = JString text)"
    if v: "vs_search env = vector_index ranked"
      and r: "fst (get_recommendations env str_of_exception items) = Response200 out" for out
  proof -
    obtain g calls where g: "get_general_products_app env items = (Inr g, calls)"
      using r by (cases "get_general_products_app env items")
        (auto simp: get_recommendations_def LLM4rec_def split: sum.splits prod.splits)
    have o: "fst (get_specific_products env g 5) = Inr out"
      using r g by (auto simp: get_recommendations_def LLM4rec_def split: sum.splits prod.splits)
    then obtain u where u: "vs_get_index env = Inr u"
      by (cases "vs_get_index env") (auto simp: get_specific_products_def Let_def)
    have "vs_search env (py_str g) 5 = Inr (search_results (take 5 (ranked (py_str g))))"
      using v by (simp add: vector_index_def)
    from get_specific_products_search_results[OF u this] o
    have "out = map (\<lambda>h. JString (hit_text h)) (take 5 (ranked (py_str g)))" by simp
    then show ?thesis by auto
  qed
  from a b show ?thesis unfolding s c(1) by blast
qed

theorem handler_asks_for_five_witness:
  "searches (snd (get_recommendations sample_env (\<lambda>e. ''failed'') sample_items))
     = [(''['winter boots', 'gloves']'', 5)]
   \<and> fst (get_recommendations sample_env (\<lambda>e. ''failed'') sample_items)
     = Response200 [JString ''Insulated snow boots'', JString ''Leather winter gloves'',
                    JString ''Waterproof hiking boots'', JString ''Wool mittens'', JString ''Thermal socks'']
   \<and> length [JString ''Insulated snow boots'', JString ''Leather winter gloves'',
                    JString ''Waterproof hiking boots'', JString ''Wool mittens'', JString ''Thermal socks''] \<le> 5"
proof -
  have h: "vs_search sample_env = vector_index sample_ranked" by (simp add: sample_env_def)
  have a: "searches (snd (get_recommendations sample_env (\<lambda>e. ''failed'') sample_items))
     = [(''['winter boots', 'gloves']'', 5)]"
    by code_simp
  have b: "fst (get_recommendations sample_env (\<lambda>e. ''failed'') sample_items)
     = Response200 [JString ''Insulated snow boots'', JString ''Leather winter gloves'',
                    JString ''Waterproof hiking boots'', JString ''Wool mittens'', JString ''Thermal socks'']"
    by code_simp
  from handler_asks_for_five[where env = sample_env and items = sample_items
      and str_of_exception = "\<lambda>e. ''failed''" and ranked = sample_ranked] h b
  have "length [JString ''Insulated snow boots'', JString ''Leather winter gloves'',
                    JString ''Waterproof hiking boots'', JString ''Wool mittens'', JString ''Thermal socks''] \<le> 5"
    by blast
  with a b show ?thesis by blast
qed

section \<open>Lemmas about the two pipelines\<close>




section \<open>Lemmas about the provisioning waits\<close>

text \<open>The equations of the two loops are unfolded one step at a time.\<close>

declare endpoint_wait_loop.simps [simp del]
declare index_wait_loop.simps [simp del]

lemma sleep_shrinks_bound:
  fixes stop now :: nat
  assumes "0 < d" "now + d + el \<le> stop"
  shows "(stop - (now + d + el)) div d + 1 \<le> (stop - now) div d"
proof -
  from assms(2) obtain m where m: "stop = now + d + el + m" using le_Suc_ex by blast
  have 1: "stop - (now + d + el) = m" unfolding m by simp
  have 2: "stop - now = (el + m) + d" unfolding m by simp
  have 3: "((el + m) + d) div d = (el + m) div d + 1" using assms(1) by (simp add: div_add_self2)
  have 4: "m div d \<le> (el + m) div d" by (rule div_le_mono) simp
  show ?thesis unfolding 1 2 3 using 4 by simp
qed

lemma endpoint_loop_polls_bound:
  "snd (endpoint_wait_loop w stop now k) \<le> k + (if now \<le> stop then (stop - now) div 30 + 1 else 0)"
proof (induction w stop now k rule: endpoint_wait_loop.induct)
  case (1 w stop now k)
  show ?case
  proof (cases "now \<le> stop")
    case False
    then show ?thesis by (subst endpoint_wait_loop.simps) simp
  next
    case le: True
    show ?thesis
    proof (cases "poll_query w k")
      case (Inl e)
      with le show ?thesis by (subst endpoint_wait_loop.simps) simp
    next
      case (Inr status)
      show ?thesis
      proof (cases "status = ''NOT_READY''")
        case False
        with le Inr show ?thesis by (subst endpoint_wait_loop.simps) simp
      next
        case nr: True
        let ?now' = "now + 30 + poll_elapsed w k"
        have step: "endpoint_wait_loop w stop now k = endpoint_wait_loop w stop ?now' (Suc k)"
          using le Inr nr by (subst endpoint_wait_loop.simps) simp
        have IH: "snd (endpoint_wait_loop w stop ?now' (Suc k))
                    \<le> Suc k + (if ?now' \<le> stop then (stop - ?now') div 30 + 1 else 0)"
          using "1.IH"[OF le Inr nr] .
        have "(if ?now' \<le> stop then (stop - ?now') div 30 + 1 else 0) \<le> (stop - now) div 30"
          using sleep_shrinks_bound[of 30 now "poll_elapsed w k" stop] by simp
        with IH le show ?thesis unfolding step by simp
      qed
    qed
  qed
qed

lemma endpoint_loop_result:
  "endpoint_wait_loop w stop now k = (r, polls) \<Longrightarrow>
     k \<le> polls \<and>
     (case r of
        Inl e \<Rightarrow> k < polls \<and> poll_query w (polls - 1) = Inl e
      | Inr waiting \<Rightarrow>
          if waiting
          then stop < now + (\<Sum>j = k..<polls. 30 + poll_elapsed w j)
               \<and> (\<forall>j. k \<le> j \<and> j < polls \<longrightarrow> poll_query w j = Inr ''NOT_READY'')
          else k < polls \<and> (\<exists>status. poll_query w (polls - 1) = Inr status \<and> status \<noteq> ''NOT_READY''))"
proof (induction w stop now k arbitrary: r polls rule: endpoint_wait_loop.induct)
  case (1 w stop now k)
  show ?case
  proof (cases "now \<le> stop")
    case False
    then have "endpoint_wait_loop w stop now k = (Inr True, k)"
      by (subst endpoint_wait_loop.simps) simp
    with "1.prems" have "r = Inr True" "polls = k" by simp_all
    with False show ?thesis by auto
  next
    case le: True
    show ?thesis
    proof (cases "poll_query w k")
      case (Inl e)
      with le have "endpoint_wait_loop w stop now k = (Inl e, Suc k)"
        by (subst endpoint_wait_loop.simps) simp
      with "1.prems" have "r = Inl e" "polls = Suc k" by simp_all
      with Inl show ?thesis by simp
    next
      case (Inr status)
      show ?thesis
      proof (cases "status = ''NOT_READY''")
        case False
        with le Inr have "endpoint_wait_loop w stop now k = (Inr False, Suc k)"
          by (subst endpoint_wait_loop.simps) simp
        with "1.prems" have "r = Inr False" "polls = Suc k" by simp_all
        with Inr False show ?thesis by simp
      next
        case nr: True
        let ?now' = "now + 30 + poll_elapsed w k"
        have step: "endpoint_wait_loop w stop now k = endpoint_wait_loop w stop ?now' (Suc k)"
          using le Inr nr by (subst endpoint_wait_loop.simps) simp
        with "1.prems" have "endpoint_wait_loop w stop ?now' (Suc k) = (r, polls)" by simp
        from "1.IH"[OF le Inr nr this]
        have IH: "Suc k \<le> polls"
          "(case r of
              Inl e \<Rightarrow> Suc k < polls \<and> poll_query w (polls - 1) = Inl e
            | Inr waiting \<Rightarrow>
                if waiting
                then stop < ?now' + (\<Sum>j = Suc k..<polls. 30 + poll_elapsed w j)
                     \<and> (\<forall>j. Suc k \<le> j \<and> j < polls \<longrightarrow> poll_query w j = Inr ''NOT_READY'')
                else Suc k < polls \<and> (\<exists>status. poll_query w (polls - 1) = Inr status \<and> status \<noteq> ''NOT_READY''))"
          by simp_all
        have sum: "(\<Sum>j = k..<polls. 30 + poll_elapsed w j)
                     = 30 + poll_elapsed w k + (\<Sum>j = Suc k..<polls. 30 + poll_elapsed w j)"
          using IH(1) by (simp add: sum.atLeast_Suc_lessThan)
        have all: "(\<forall>j. k \<le> j \<and> j < polls \<longrightarrow> poll_query w j = Inr ''NOT_READY'')"
          if "\<forall>j. Suc k \<le> j \<and> j < polls \<longrightarrow> poll_query w j = Inr ''NOT_READY''"
        proof (intro allI impI)
          fix j assume j: "k \<le> j \<and> j < polls"
          show "poll_query w j = Inr ''NOT_READY''"
          proof (cases "j = k")
            case True with Inr nr show ?thesis by simp
          next
            case False with j that show ?thesis by simp
          qed
        qed
        show ?thesis
        proof (cases r)
          case (Inl e)
          with IH show ?thesis by simp
        next
          case (Inr waiting)
          with IH sum all show ?thesis by (cases waiting) (simp_all add: add.assoc)
        qed
      qed
    qed
  qed
qed

lemma index_loop_polls_bound:
  "snd (index_wait_loop w stop now k) \<le> k + (if now \<le> stop then (stop - now) div 60 + 1 else 0)"
proof (induction w stop now k rule: index_wait_loop.induct)
  case (1 w stop now k)
  show ?case
  proof (cases "now \<le> stop")
    case False
    then show ?thesis by (subst index_wait_loop.simps) simp
  next
    case le: True
    show ?thesis
    proof (cases "poll_query w k")
      case (Inl e)
      with le show ?thesis by (subst index_wait_loop.simps) simp
    next
      case (Inr is_ready)
      show ?thesis
      proof (cases is_ready)
        case True
        with le Inr show ?thesis by (subst index_wait_loop.simps) simp
      next
        case nr: False
        let ?now' = "now + 60 + poll_elapsed w k"
        have step: "index_wait_loop w stop now k = index_wait_loop w stop ?now' (Suc k)"
          using le Inr nr by (subst index_wait_loop.simps) simp
        have IH: "snd (index_wait_loop w stop ?now' (Suc k))
                    \<le> Suc k + (if ?now' \<le> stop then (stop - ?now') div 60 + 1 else 0)"
          using "1.IH"[OF le Inr nr] .
        have "(if ?now' \<le> stop then (stop - ?now') div 60 + 1 else 0) \<le> (stop - now) div 60"
          using sleep_shrinks_bound[of 60 now "poll_elapsed w k" stop] by simp
        with IH le show ?thesis unfolding step by simp
      qed
    qed
  qed
qed

lemma index_loop_result:
  "index_wait_loop w stop now k = (r, polls) \<Longrightarrow>
     k \<le> polls \<and>
     (case r of
        Inl e \<Rightarrow> k < polls \<and> poll_query w (polls - 1) = Inl e
      | Inr waiting \<Rightarrow>
          if waiting
          then stop < now + (\<Sum>j = k..<polls. 60 + poll_elapsed w j)
               \<and> (\<forall>j. k \<le> j \<and> j < polls \<longrightarrow> poll_query w j = Inr False)
          else k < polls \<and> poll_query w (polls - 1) = Inr True)"
proof (induction w stop now k arbitrary: r polls rule: index_wait_loop.induct)
  case (1 w stop now k)
  show ?case
  proof (cases "now \<le> stop")
    case False
    then have "index_wait_loop w stop now k = (Inr True, k)"
      by (subst index_wait_loop.simps) simp
    with "1.prems" have "r = Inr True" "polls = k" by simp_all
    with False show ?thesis by auto
  next
    case le: True
    show ?thesis
    proof (cases "poll_query w k")
      case (Inl e)
      with le have "index_wait_loop w stop now k = (Inl e, Suc k)"
        by (subst index_wait_loop.simps) simp
      with "1.prems" have "r = Inl e" "polls = Suc k" by simp_all
      with Inl show ?thesis by simp
    next
      case (Inr is_ready)
      show ?thesis
      proof (cases is_ready)
        case True
        with le Inr have "index_wait_loop w stop now k = (Inr False, Suc k)"
          by (subst index_wait_loop.simps) simp
        with "1.prems" have "r = Inr False" "polls = Suc k" by simp_all
        with Inr True show ?thesis by simp
      next
        case nr: False
        let ?now' = "now + 60 + poll_elapsed w k"
        have step: "index_wait_loop w stop now k = index_wait_loop w stop ?now' (Suc k)"
          using le Inr nr by (subst index_wait_loop.simps) simp
        with "1.prems" have "index_wait_loop w stop ?now' (Suc k) = (r, polls)" by simp
        from "1.IH"[OF le Inr nr this]
        have IH: "Suc k \<le> polls"
          "(case r of
              Inl e \<Rightarrow> Suc k < polls \<and> poll_query w (polls - 1) = Inl e
            | Inr waiting \<Rightarrow>
                if waiting
                then stop < ?now' + (\<Sum>j = Suc k..<polls. 60 + poll_elapsed w j)
                     \<and> (\<forall>j. Suc k \<le> j \<and> j < polls \<longrightarrow> poll_query w j = Inr False)
                else Suc k < polls \<and> poll_query w (polls - 1) = Inr True)"
          by simp_all
        have sum: "(\<Sum>j = k..<polls. 60 + poll_elapsed w j)
                     = 60 + poll_elapsed w k + (\<Sum>j = Suc k..<polls. 60 + poll_elapsed w j)"
          using IH(1) by (simp add: sum.atLeast_Suc_lessThan)
        have all: "(\<forall>j. k \<le> j \<and> j < polls \<longrightarrow> poll_query w j = Inr False)"
          if "\<forall>j. Suc k \<le> j \<and> j < polls \<longrightarrow> poll_query w j = Inr False"
        proof (intro allI impI)
          fix j assume j: "k \<le> j \<and> j < polls"
          show "poll_query w j = Inr False"
          proof (cases "j = k")
            case True with Inr nr show ?thesis by simp
          next
            case False with j that show ?thesis by simp
          qed
        qed
        show ?thesis
        proof (cases r)
          case (Inl e)
          with IH show ?thesis by simp
        next
          case (Inr waiting)
          with IH sum all show ?thesis by (cases waiting) (simp_all add: add.assoc)
        qed
      qed
    qed
  qed
qed

lemma wait_for_endpoint_outcome:
  "case wait_for_endpoint w start of
     (r, polls) \<Rightarrow>
       polls \<le> 61 \<and>
       (r = Inr () \<and> 0 < polls
          \<and> (\<exists>status. poll_query w (polls - 1) = Inr status \<and> status \<noteq> ''NOT_READY'')
        \<or> r = Inl (Exception endpoint_timeout_message)
          \<and> 30 * 60 < (\<Sum>j<polls. 30 + poll_elapsed w j)
          \<and> (\<forall>j<polls. poll_query w j = Inr ''NOT_READY'')
        \<or> (\<exists>e. r = Inl e \<and> 0 < polls \<and> poll_query w (polls - 1) = Inl e))"
proof -
  obtain r polls where l: "endpoint_wait_loop w (start + 30 * 60) start 0 = (r, polls)"
    by (cases "endpoint_wait_loop w (start + 30 * 60) start 0")
  from endpoint_loop_polls_bound[of w "start + 30 * 60" start 0] l have b: "polls \<le> 61" by simp
  note res = endpoint_loop_result[OF l]
  show ?thesis
  proof (cases r)
    case (Inl e)
    with res l b show ?thesis by (simp add: wait_for_endpoint_def)
  next
    case (Inr waiting)
    show ?thesis
    proof (cases waiting)
      case True
      with Inr res have "start + 30 * 60 < start + (\<Sum>j = 0..<polls. 30 + poll_elapsed w j)"
        and "\<forall>j<polls. poll_query w j = Inr ''NOT_READY''" by simp_all
      then have "30 * 60 < (\<Sum>j<polls. 30 + poll_elapsed w j)"
        and "\<forall>j<polls. poll_query w j = Inr ''NOT_READY''" by (simp_all add: atLeast0LessThan)
      with True Inr l b show ?thesis by (simp add: wait_for_endpoint_def)
    next
      case False
      with Inr res l b show ?thesis by (simp add: wait_for_endpoint_def)
    qed
  qed
qed

lemma wait_for_index_outcome:
  "case wait_for_index w start lookup_time of
     (r, polls) \<Rightarrow>
       polls \<le> 121 \<and>
       (r = Inr () \<and> 0 < polls \<and> poll_query w (polls - 1) = Inr True
        \<or> r = Inl (Exception index_timeout_message)
          \<and> 120 * 60 < lookup_time + (\<Sum>j<polls. 60 + poll_elapsed w j)
          \<and> (\<forall>j<polls. poll_query w j = Inr False)
        \<or> (\<exists>e. r = Inl e \<and> 0 < polls \<and> poll_query w (polls - 1) = Inl e))"
proof -
  obtain r polls where l: "index_wait_loop w (start + 120 * 60) (start + lookup_time) 0 = (r, polls)"
    by (cases "index_wait_loop w (start + 120 * 60) (start + lookup_time) 0")
  have "(7200 - lookup_time) div 60 \<le> 7200 div 60" by (rule div_le_mono) simp
  then have "(if start + lookup_time \<le> start + 120 * 60
         then (start + 120 * 60 - (start + lookup_time)) div 60 + 1 else 0) \<le> 121"
    by simp
  with index_loop_polls_bound[of w "start + 120 * 60" "start + lookup_time" 0] l
  have b: "polls \<le> 121" by simp
  note res = index_loop_result[OF l]
  show ?thesis
  proof (cases r)
    case (Inl e)
    with res l b show ?thesis by (simp add: wait_for_index_def)
  next
    case (Inr waiting)
    show ?thesis
    proof (cases waiting)
      case True
      with Inr res have "start + 120 * 60 < start + lookup_time + (\<Sum>j = 0..<polls. 60 + poll_elapsed w j)"
        and "\<forall>j<polls. poll_query w j = Inr False" by simp_all
      then have "120 * 60 < lookup_time + (\<Sum>j<polls. 60 + poll_elapsed w j)"
        and "\<forall>j<polls. poll_query w j = Inr False" by (simp_all add: atLeast0LessThan)
      with True Inr l b show ?thesis by (simp add: wait_for_index_def)
    next
      case False
      with Inr res l b show ?thesis by (simp add: wait_for_index_def)
    qed
  qed
qed

section \<open>The notebook pipeline and the deployed pipeline\<close>




section \<open>Termination of the provisioning waits\<close>

text \<open>
  C10. Both waits are total functions of the clock and the statuses: whatever the statuses
  and delays, the wait for the endpoint ends after at most 61 status queries and the wait
  for the index after at most 121. Each ends in one of three ways: the last query saw a
  status other than not-ready and the wait returns; or every query saw not-ready, the
  time slept and spent has passed the deadline (30 and 120 minutes), and the wait raises
  the timeout exception; or the last status query itself raised, and its exception
  propagates.
\<close>

theorem provisioning_waits_terminate:
  "(case wait_for_endpoint w start of
     (r, polls) \<Rightarrow>
       polls \<le> 61 \<and>
       (r = Inr () \<and> 0 < polls
          \<and> (\<exists>status. poll_query w (polls - 1) = Inr status \<and> status \<noteq> ''NOT_READY'')
        \<or> r = Inl (Exception endpoint_timeout_message)
          \<and> 30 * 60 < (\<Sum>j<polls. 30 + poll_elapsed w j)
          \<and> (\<forall>j<polls. poll_query w j = Inr ''NOT_READY'')
        \<or> (\<exists>e. r = Inl e \<and> 0 < polls \<and> poll_query w (polls - 1) = Inl e)))
   \<and> (case wait_for_index w' start' lookup_time of
     (r, polls) \<Rightarrow>
       polls \<le> 121 \<and>
       (r = Inr () \<and> 0 < polls \<and> poll_query w' (polls - 1) = Inr True
        \<or> r = Inl (Exception index_timeout_message)
          \<and> 120 * 60 < lookup_time + (\<Sum>j<polls. 60 + poll_elapsed w' j)
          \<and> (\<forall>j<polls. poll_query w' j = Inr False)
        \<or> (\<exists>e. r = Inl e \<and> 0 < polls \<and> poll_query w' (polls - 1) = Inl e)))"
  using wait_for_endpoint_outcome[where w = w and start = start]
    wait_for_index_outcome[where w = w' and start = start' and lookup_time = lookup_time]
  by (rule conjI)

text \<open>An endpoint and an index that become ready after a few queries, and ones that
  never do.\<close>

theorem provisioning_waits_terminate_witness:
  "wait_for_endpoint slow_endpoint 1000 = (Inr (), 4)
   \<and> wait_for_endpoint stuck_endpoint 1000 = (Inl (Exception endpoint_timeout_message), 3)
   \<and> wait_for_index slow_index 1000 5 = (Inr (), 3)
   \<and> wait_for_index stuck_index 1000 5 = (Inl (Exception index_timeout_message), 4)
   \<and> snd (wait_for_endpoint stuck_endpoint 1000) \<le> 61
   \<and> snd (wait_for_index stuck_index 1000 5) \<le> 121"
proof -
  have a: "wait_for_endpoint slow_endpoint 1000 = (Inr (), 4)" by code_simp
  have b: "wait_for_endpoint stuck_endpoint 1000 = (Inl (Exception endpoint_timeout_message), 3)"
    by code_simp
  have c: "wait_for_index slow_index 1000 5 = (Inr (), 3)" by code_simp
  have d: "wait_for_index stuck_index 1000 5 = (Inl (Exception index_timeout_message), 4)"
    by code_simp
  from provisioning_waits_terminate[where w = stuck_endpoint and start = 1000 and w' = stuck_index
      and start' = 1000 and lookup_time = 5]
  have "snd (wait_for_endpoint stuck_endpoint 1000) \<le> 61
      \<and> snd (wait_for_index stuck_index 1000 5) \<le> 121"
    by (auto split: prod.splits)
  with a b c d show ?thesis by blast
qed


end
